theory Spec2Isabelle
  imports Main "HOL-Library.Word" "HOL-Library.Sublist"
begin

unbundle bit_operations_syntax

chapter \<open>The Basecode bootstrap compiler: type checks, variables and the byte code emitter\<close>

text \<open>
  The development follows the C++ sources. Part I holds the embedding: the type queries
  of \<^verbatim>\<open>compiler::type\<close> and its subclasses, \<^verbatim>\<open>compiler::variable\<close>, and
  \<^verbatim>\<open>byte_code_emitter\<close>. Part II holds the properties. A
  C++ member function that mutates its object takes the object and returns the new one; a
  null pointer dereference or a \<^verbatim>\<open>back()\<close> on an empty vector is undefined behaviour in
  C++ and is a value of its own in the model, never a silent default.
\<close>

section \<open>Part I: the embedding\<close>

subsection \<open>Types (\<^verbatim>\<open>elements/type.cpp\<close>, \<^verbatim>\<open>numeric_type.h\<close>, \<^verbatim>\<open>pointer_type.cpp\<close>, \<^verbatim>\<open>composite_type.cpp\<close>)\<close>

datatype number_class_t = none | integer | floating_point

text \<open>
  The element type tags of the classes derived from \<^verbatim>\<open>compiler::type\<close>, as the emitter's
  big switch lists them.
\<close>

datatype type_tag =
    rune_type | proc_type | bool_type | tuple_type | array_type | module_type
  | family_type | unknown_type | numeric_type | pointer_type | generic_type
  | namespace_type | composite_type

text \<open>
  The rows of \<^verbatim>\<open>numeric_type::s_type_properties\<close>: name, size in bytes, signedness and
  number class (the \<^verbatim>\<open>min\<close> and \<^verbatim>\<open>max\<close> columns play no part in what follows).
\<close>

datatype numeric_name = u0 | u8 | u16 | u32 | u64 | s8 | s16 | s32 | s64 | f32 | f64

fun numeric_size :: "numeric_name \<Rightarrow> nat" where
  "numeric_size u0 = 0"
| "numeric_size u8 = 1"
| "numeric_size u16 = 2"
| "numeric_size u32 = 4"
| "numeric_size u64 = 8"
| "numeric_size s8 = 1"
| "numeric_size s16 = 2"
| "numeric_size s32 = 4"
| "numeric_size s64 = 8"
| "numeric_size f32 = 4"
| "numeric_size f64 = 8"

fun numeric_is_signed :: "numeric_name \<Rightarrow> bool" where
  "numeric_is_signed u0 = False"
| "numeric_is_signed u8 = False"
| "numeric_is_signed u16 = False"
| "numeric_is_signed u32 = False"
| "numeric_is_signed u64 = False"
| "numeric_is_signed s8 = True"
| "numeric_is_signed s16 = True"
| "numeric_is_signed s32 = True"
| "numeric_is_signed s64 = True"
| "numeric_is_signed f32 = True"
| "numeric_is_signed f64 = True"

fun numeric_number_class :: "numeric_name \<Rightarrow> number_class_t" where
  "numeric_number_class f32 = floating_point"
| "numeric_number_class f64 = floating_point"
| "numeric_number_class _ = integer"

fun numeric_symbol :: "numeric_name \<Rightarrow> string" where
  "numeric_symbol u0 = ''u0''"
| "numeric_symbol u8 = ''u8''"
| "numeric_symbol u16 = ''u16''"
| "numeric_symbol u32 = ''u32''"
| "numeric_symbol u64 = ''u64''"
| "numeric_symbol s8 = ''s8''"
| "numeric_symbol s16 = ''s16''"
| "numeric_symbol s32 = ''s32''"
| "numeric_symbol s64 = ''s64''"
| "numeric_symbol f32 = ''f32''"
| "numeric_symbol f64 = ''f64''"

text \<open>
  A type object. \<open>Numeric\<close> is a \<^verbatim>\<open>numeric_type\<close> built from a row of the table.
  \<open>Pointer b v\<close> is a \<^verbatim>\<open>pointer_type\<close> whose \<^verbatim>\<open>_base_type_ref->type()\<close> is \<open>b\<close>;
  \<open>v\<close> is what \<^verbatim>\<open>_base_type_ref->is_void()\<close> answers (\<^verbatim>\<open>type_reference\<close> is not
  among the sources, so its answer is data). \<open>Composite name size\<close> is a
  \<^verbatim>\<open>composite_type\<close> with its symbol's name and its size, \<open>Tuple id size\<close> a
  \<^verbatim>\<open>tuple_type\<close> with its element id. \<open>Other\<close> stands for the type classes whose
  sources are absent (bool, rune, array, ...): tag, symbol name, size, and the answers of
  the virtual queries \<^verbatim>\<open>on_number_class\<close> and \<^verbatim>\<open>is_composite_type\<close>.
\<close>

datatype type =
    Numeric numeric_name
  | Pointer type bool
  | Composite string nat
  | Tuple nat nat
  | Other type_tag string nat number_class_t bool

fun element_type :: "type \<Rightarrow> type_tag" where
  "element_type (Numeric _) = numeric_type"
| "element_type (Pointer _ _) = pointer_type"
| "element_type (Composite _ _) = composite_type"
| "element_type (Tuple _ _) = tuple_type"
| "element_type (Other tag _ _ _ _) = tag"

text \<open>\<^verbatim>\<open>pointer_type::on_initialize\<close> sets the size to \<^verbatim>\<open>sizeof(uint64_t)\<close>.\<close>

fun size_in_bytes :: "type \<Rightarrow> nat" where
  "size_in_bytes (Numeric n) = numeric_size n"
| "size_in_bytes (Pointer _ _) = 8"
| "size_in_bytes (Composite _ sz) = sz"
| "size_in_bytes (Tuple _ sz) = sz"
| "size_in_bytes (Other _ _ sz _ _) = sz"

text \<open>
  \<^verbatim>\<open>type::on_number_class\<close> answers \<^verbatim>\<open>none\<close>; \<^verbatim>\<open>pointer_type\<close> overrides it with
  \<^verbatim>\<open>integer\<close>, \<^verbatim>\<open>numeric_type\<close> with its own class.
\<close>

fun number_class :: "type \<Rightarrow> number_class_t" where
  "number_class (Numeric n) = numeric_number_class n"
| "number_class (Pointer _ _) = integer"
| "number_class (Composite _ _) = none"
| "number_class (Tuple _ _) = none"
| "number_class (Other _ _ _ c _) = c"

fun is_signed :: "type \<Rightarrow> bool" where
  "is_signed (Numeric n) = numeric_is_signed n"
| "is_signed _ = False"

fun is_pointer_type :: "type \<Rightarrow> bool" where
  "is_pointer_type (Pointer _ _) = True"
| "is_pointer_type _ = False"

text \<open>
  \<^verbatim>\<open>composite_type::is_composite_type\<close> answers true (a tuple type is a composite type),
  \<^verbatim>\<open>pointer_type::is_composite_type\<close> asks its base type, the base class answers false.
\<close>

fun is_composite_type :: "type \<Rightarrow> bool" where
  "is_composite_type (Composite _ _) = True"
| "is_composite_type (Tuple _ _) = True"
| "is_composite_type (Pointer b _) = is_composite_type b"
| "is_composite_type (Numeric _) = False"
| "is_composite_type (Other _ _ _ _ c) = c"

fun type_name :: "type \<Rightarrow> string" where
  "type_name (Numeric n) = numeric_symbol n"
| "type_name (Pointer b _) = ''ptr_'' @ type_name b"
| "type_name (Composite n _) = n"
| "type_name (Tuple _ _) = ''tuple''"
| "type_name (Other _ n _ _ _) = n"

text \<open>
  \<^verbatim>\<open>type::type_check\<close> calls the virtual \<^verbatim>\<open>on_type_check\<close>. For a pointer type that is
  \<^verbatim>\<open>pointer_type::on_type_check\<close>, translated below; \<open>other\<close> is \<open>None\<close> for a null
  pointer. The \<^verbatim>\<open>on_type_check\<close> of the other classes is the parameter \<open>tc\<close>
  (\<^verbatim>\<open>numeric_type::on_type_check\<close> is not among the sources).
\<close>

fun type_check :: "(type \<Rightarrow> type option \<Rightarrow> bool) \<Rightarrow> type \<Rightarrow> type option \<Rightarrow> bool" where
  "type_check tc (Pointer base v) other =
     (case other of
        None \<Rightarrow> False
      | Some (Pointer other_base other_void) \<Rightarrow>
          if other_void then True else type_check tc base (Some other_base)
      | Some (Numeric n) \<Rightarrow> size_in_bytes (Numeric n) = 8
      | Some _ \<Rightarrow> False)"
| "type_check tc t other = tc t other"

text \<open>\<^verbatim>\<open>type::on_type_check\<close>, the base class's answer.\<close>

definition base_on_type_check :: "type \<Rightarrow> type option \<Rightarrow> bool" where
  "base_on_type_check t other = False"

subsection \<open>Variables (\<^verbatim>\<open>compiler/variable.cpp\<close>)\<close>

text \<open>
  The enumeration \<^verbatim>\<open>variable::flags_t\<close> is declared in a header that is not among the
  sources, so the five masks are a parameter; \<open>flags_ok\<close> says what an enumeration of
  flag bits gives: the read, written and addressed masks are not zero and share no bit.
\<close>

record flags_t =
  f_read :: "8 word"
  f_copied :: "8 word"
  f_written :: "8 word"
  f_activated :: "8 word"
  f_addressed :: "8 word"

definition flags_ok :: "flags_t \<Rightarrow> bool" where
  "flags_ok c =
     (f_read c \<noteq> 0 \<and> f_written c \<noteq> 0 \<and> f_addressed c \<noteq> 0 \<and>
      f_read c AND f_written c = 0 \<and>
      f_addressed c AND f_read c = 0 \<and>
      f_addressed c AND f_written c = 0)"

definition bit_flags :: flags_t where
  "bit_flags = \<lparr>f_read = 1, f_copied = 2, f_written = 4, f_activated = 8, f_addressed = 16\<rparr>"

text \<open>What a variable appends to the assembler's current block.\<close>

datatype block_entry =
    Comment string
  | Clr
  | Load_to_reg nat
  | Store_from_reg nat
  | Move_label_to_reg string
  | Move_constant_to_reg nat
  | Element_emit

text \<open>
  A variable: its flag byte; whether \<^verbatim>\<open>_element\<close> is an identifier and that identifier's
  symbol name; \<^verbatim>\<open>_parent != nullptr\<close>; the fields from this variable up to the root of
  the parent chain, each with start offset and name; the root's identifier name, if the
  root's element is an identifier; whether the value register is a qword.
\<close>

record variable =
  flags :: "8 word"
  element_is_identifier :: bool
  symbol_name :: string
  has_parent :: bool
  field_chain :: "(nat \<times> string) list"
  root_identifier :: "string option"
  value_reg_is_qword :: bool

text \<open>\<^verbatim>\<open>bool variable::flag(flags_t f) const\<close> and \<^verbatim>\<open>void variable::flag(flags_t f, bool value)\<close>.\<close>

definition flag :: "variable \<Rightarrow> 8 word \<Rightarrow> bool" where
  "flag v f = (flags v AND f \<noteq> 0)"

definition set_flag :: "8 word \<Rightarrow> bool \<Rightarrow> variable \<Rightarrow> variable" where
  "set_flag f value v = (if value then v\<lparr>flags := flags v OR f\<rparr> else v\<lparr>flags := flags v AND NOT f\<rparr>)"

text \<open>
  \<^verbatim>\<open>walk_to_root_and_calculate_offset\<close>: false without a parent; otherwise the summed
  start offsets, the dotted path from the root down, and the root's identifier.
  \<open>join_path\<close> is its second loop over the stack of names, the top first: a dot is added
  only when the path so far is not empty.
\<close>

fun join_path :: "string \<Rightarrow> string list \<Rightarrow> string" where
  "join_path path [] = path"
| "join_path path (n # names) = join_path ((if path \<noteq> [] then path @ ''.'' else path) @ n) names"

definition walk_to_root_and_calculate_offset :: "variable \<Rightarrow> (nat \<times> string \<times> string option) option" where
  "walk_to_root_and_calculate_offset v =
     (if \<not> has_parent v then None
      else Some (sum_list (map fst (field_chain v)),
                 join_path [] (rev (map snd (field_chain v))),
                 root_identifier v))"

text \<open>
  The assembler's current block is \<open>None\<close> for a null pointer, otherwise the entries
  appended so far. Each operation returns its boolean, the variable and the block; the
  result \<open>None\<close> is a null pointer dereference.
\<close>

definition address :: "flags_t \<Rightarrow> variable \<Rightarrow> block_entry list option \<Rightarrow> bool \<times> variable \<times> block_entry list option" where
  "address c v block =
     (if flag v (f_addressed c) then (False, v, block)
      else case block of
        None \<Rightarrow> (True, v, block)
      | Some b \<Rightarrow>
          let var = (if element_is_identifier v then Some (symbol_name v) else None);
              var = (case walk_to_root_and_calculate_offset v of
                       Some (off, path, ident) \<Rightarrow> ident
                     | None \<Rightarrow> var);
              b = (case var of
                     Some n \<Rightarrow> b @ [Comment (''load global address: '' @ n), Move_label_to_reg n]
                   | None \<Rightarrow> b)
          in (True, set_flag (f_addressed c) True v, Some b))"

definition read :: "flags_t \<Rightarrow> variable \<Rightarrow> block_entry list option \<Rightarrow> (bool \<times> variable \<times> block_entry list option) option" where
  "read c v block =
     (if flag v (f_read c) then Some (False, v, block)
      else case block of
        None \<Rightarrow> Some (True, v, block)
      | Some b0 \<Rightarrow>
          (case address c v block of
             (_, v, None) \<Rightarrow> None
           | (_, v, Some b) \<Rightarrow>
               let b =
                 (if element_is_identifier v then
                    (let (off, cmt) =
                       (case walk_to_root_and_calculate_offset v of
                          Some (off, path, ident) \<Rightarrow> (off, Comment (''load field value: '' @ path))
                        | None \<Rightarrow> (0, Comment (''load global value: '' @ symbol_name v)))
                     in b @ [cmt] @ (if \<not> value_reg_is_qword v then [Clr] else []) @ [Load_to_reg off])
                  else b @ [Element_emit])
               in Some (True, set_flag (f_written c) False (set_flag (f_read c) True v), Some b)))"

definition write_variable :: "flags_t \<Rightarrow> variable \<Rightarrow> block_entry list option \<Rightarrow> (bool \<times> variable \<times> block_entry list option) option" where
  "write_variable c v block =
     (if flag v (f_written c) then Some (False, v, block)
      else case address c v block of
        (_, v, None) \<Rightarrow> None
      | (_, v, Some b) \<Rightarrow>
          (case walk_to_root_and_calculate_offset v of
             Some (off, path, ident) \<Rightarrow>
               Some (True, set_flag (f_read c) False (set_flag (f_written c) True v),
                     Some (b @ [Comment (''store field value: '' @ path), Store_from_reg off]))
           | None \<Rightarrow>
               if element_is_identifier v then
                 Some (True, set_flag (f_read c) False (set_flag (f_written c) True v),
                       Some (b @ [Comment (''store global value: '' @ symbol_name v), Store_from_reg 0]))
               else None))"

text \<open>
  A sequence of calls on one variable; between two calls the assembler's current block may
  have been replaced, so every call comes with the block it finds. The run stops with
  \<open>None\<close> at a null pointer dereference.
\<close>

datatype variable_call = Read | Write

fun call :: "flags_t \<Rightarrow> variable_call \<Rightarrow> variable \<Rightarrow> block_entry list option \<Rightarrow> (bool \<times> variable \<times> block_entry list option) option" where
  "call c Read v block = read c v block"
| "call c Write v block = write_variable c v block"

fun calls :: "flags_t \<Rightarrow> (variable_call \<times> block_entry list option) list \<Rightarrow> variable \<Rightarrow> variable option" where
  "calls c [] v = Some v"
| "calls c ((k, block) # rest) v =
     (case call c k v block of
        None \<Rightarrow> None
      | Some (_, v', _) \<Rightarrow> calls c rest v')"

definition both_set :: "flags_t \<Rightarrow> variable \<Rightarrow> bool" where
  "both_set c v = (flag v (f_read c) \<and> flag v (f_written c))"

definition example_variable :: variable where
  "example_variable =
     \<lparr>flags = 0, element_is_identifier = True, symbol_name = ''x'', has_parent = False,
      field_chain = [], root_identifier = None, value_reg_is_qword = True\<rparr>"

text \<open>A field \<^verbatim>\<open>r.p.y\<close> whose own element is not an identifier.\<close>

definition example_field :: variable where
  "example_field =
     \<lparr>flags = 0, element_is_identifier = False, symbol_name = [], has_parent = True,
      field_chain = [(4, ''y''), (8, ''p'')], root_identifier = Some ''r'',
      value_reg_is_qword = True\<rparr>"

subsection \<open>Operands, instructions and basic blocks (\<^verbatim>\<open>vm/basic_block.h\<close>, \<^verbatim>\<open>vm/assembler.h\<close>)\<close>

datatype op_sizes = no_size | byte | word | dword | qword

text \<open>
  Modelled from the spec: \<^verbatim>\<open>vm::op_size_for_byte_size\<close> is not among the sources; operand
  sizes are byte, word, dword and qword, for one, two, four and eight bytes.
\<close>

definition op_size_for_byte_size :: "nat \<Rightarrow> op_sizes" where
  "op_size_for_byte_size n =
     (if n = 1 then byte else if n = 2 then word else if n = 4 then dword
      else if n = 8 then qword else no_size)"

text \<open>
  Modelled from the spec: \<^verbatim>\<open>common::align\<close> is not among the sources; it rounds a size up
  to the next multiple of the alignment. Sizes are natural numbers here: the 64-bit
  wrap-around of \<^verbatim>\<open>size_t\<close> is out of reach for the sizes of types.
\<close>

definition align :: "nat \<Rightarrow> nat \<Rightarrow> nat" where
  "align n a = (if n mod a = 0 then n else n + (a - n mod a))"

datatype named_ref_type = ref_local | ref_label | ref_offset

datatype operand =
    Named_ref named_ref_type string op_sizes
  | Immediate nat op_sizes
  | SP
  | FP
  | Empty
  | Null_ref

datatype op_codes =
    op_nop | op_move | op_moves | op_movez | op_convert | op_load | op_store | op_copy
  | op_push | op_pop | op_cmp | op_bz | op_bnz | op_jmp | op_call | op_call_foreign | op_rts
  | op_setz | op_setnz | op_seta | op_setae | op_setb | op_setbe
  | op_setl | op_setle | op_setg | op_setge
  | op_add | op_sub | op_mul | op_div | op_mod | op_pow | op_or | op_and | op_xor
  | op_shl | op_shr | op_rol | op_ror

datatype instruction = Instruction (op: op_codes) (operands: "operand list")

text \<open>
  A basic block: the label names attached to it, its instructions in order, and the names
  of its locals in the order \<^verbatim>\<open>sorted_locals()\<close> gives. Comments, blank lines and the
  predecessor and successor lists are left out: no property below reads them.
\<close>

record basic_block =
  labels :: "string list"
  instructions :: "instruction list"
  locals :: "string list"

definition empty_block :: basic_block where
  "empty_block = \<lparr>labels = [], instructions = [], locals = []\<rparr>"

subsection \<open>Elements\<close>

text \<open>
  What every element carries: its id, what \<^verbatim>\<open>label_name()\<close> answers, and the type that
  \<^verbatim>\<open>infer_type\<close> finds for it (\<open>None\<close> for a null \<^verbatim>\<open>inferred_type\<close>).
\<close>

record info =
  element_id :: nat
  label_name :: string
  inferred_type :: "type option"

datatype operator_type_t =
    add | modulo | divide | subtract | multiply | exponent | binary_or | shift_left
  | binary_and | binary_xor | shift_right | rotate_left | rotate_right
  | equals | less_than | not_equals | logical_or | logical_and | greater_than
  | less_than_or_equal | greater_than_or_equal
  | subscript | assignment

text \<open>
  The procedure type of a call: \<^verbatim>\<open>is_foreign()\<close>, the type of the return field (\<open>None\<close>
  when \<^verbatim>\<open>return_type()\<close> is null or its type is null) and \<^verbatim>\<open>foreign_address()\<close>.
\<close>

record procedure_type =
  is_foreign :: bool
  return_type :: "type option"
  foreign_address :: nat

text \<open>
  The expression elements. \<open>Identifier_reference\<close> holds its identifier (or null);
  \<open>Cast\<close> and \<open>Transmute\<close> hold the expression and the type of the type reference;
  \<open>Binary_operator\<close> holds whether it owns its operands (\<^verbatim>\<open>make_non_owning\<close> clears
  that), the operator and the two sides; \<open>Argument_list\<close> holds \<^verbatim>\<open>is_foreign_call()\<close>,
  whether \<^verbatim>\<open>as_ffi_arguments\<close> succeeds, and its elements; \<open>Proc_call\<close> holds the label
  name of the called identifier, the procedure type and the argument list (or null).
  The member access operator, unary operators, intrinsics and the float, string and
  character literals are not modelled.
\<close>

datatype expr =
    Nil_literal info
  | Boolean_literal info bool
  | Integer_literal info nat
  | Identifier info
  | Identifier_reference info "expr option"
  | Cast info expr type
  | Transmute info expr type
  | Binary_operator info bool operator_type_t expr expr
  | Argument_list info bool bool "expr list"
  | Proc_call info string procedure_type "expr option"

fun expr_info :: "expr \<Rightarrow> info" where
  "expr_info (Nil_literal i) = i"
| "expr_info (Boolean_literal i _) = i"
| "expr_info (Integer_literal i _) = i"
| "expr_info (Identifier i) = i"
| "expr_info (Identifier_reference i _) = i"
| "expr_info (Cast i _ _) = i"
| "expr_info (Transmute i _ _) = i"
| "expr_info (Binary_operator i _ _ _ _) = i"
| "expr_info (Argument_list i _ _ _) = i"
| "expr_info (Proc_call i _ _ _) = i"

text \<open>\<^verbatim>\<open>integer_literal::on_as_integer\<close>; every other element answers false.\<close>

fun as_integer :: "expr \<Rightarrow> nat option" where
  "as_integer (Integer_literal _ v) = Some v"
| "as_integer _ = None"

text \<open>
  The range intrinsic of a for loop with its five named arguments; \<open>Other_intrinsic\<close> is
  an intrinsic of another name, \<open>Other_expression\<close> an expression that is no intrinsic.
\<close>

datatype for_expression =
    Range expr expr expr expr expr
  | Other_intrinsic
  | Other_expression

text \<open>
  The statement-level elements. A block holds \<^verbatim>\<open>has_stack_frame()\<close>, whether its parent
  is a directive, its statements and its defer stack (top first). A statement holds the
  names of its labels and its expression (or null).
\<close>

datatype element =
    Expr expr
  | If_e info expr element "element option"
  | While_e info expr element
  | For_e info expr for_expression element
  | Switch_e info expr element
  | Case_e info "expr option" element
  | Break_e info "string option"
  | Continue_e info "string option"
  | Fallthrough info
  | Return_e info "string option" "expr list"
  | Defer info "element option"
  | Label info
  | Block info bool bool "statement list" "element list"
and statement =
    Statement info "string list" "element option"

subsection \<open>The emitter's state\<close>

text \<open>
  A flow control record: the exit and continue labels (null or a label name), the
  \<^verbatim>\<open>values\<close> map with its three keys (\<open>None\<close> when the key is absent; the element
  pointers under \<^verbatim>\<open>next_element\<close> and \<^verbatim>\<open>previous_element\<close> may be null), the fallthrough
  flag and the predecessor block.
\<close>

record flow_control_t =
  exit_label :: "string option"
  continue_label :: "string option"
  switch_expression :: "expr option"
  next_element :: "statement option option"
  previous_element :: "statement option option"
  fallthrough :: bool
  predecessor :: "nat option"

text \<open>
  The session as the emitter sees it. A block pointer is an index into
  \<^verbatim>\<open>assembler.blocks()\<close>. The element map is the set of the ids it holds; the id pool
  hands out \<open>next_id\<close>. \<open>allocated_size\<close> is the field of that name of the argument list
  with the given id. \<open>messages\<close> are the error codes and texts of \<^verbatim>\<open>session.error\<close>;
  \<open>ffi_functions\<close> maps a foreign address to \<^verbatim>\<open>is_variadic()\<close> of its function;
  \<open>call_site_arguments\<close> lists the signature ids recorded per address.
\<close>

record emitter =
  blocks :: "basic_block list"
  control_flow_stack :: "flow_control_t list"
  elements :: "nat set"
  next_id :: nat
  allocated_size :: "nat \<Rightarrow> nat"
  messages :: "(string \<times> string) list"
  ffi_functions :: "nat \<Rightarrow> bool option"
  call_site_arguments :: "(nat \<times> nat) list"

record emit_result_t =
  result_operands :: "operand list"
  type_result :: "type option"
  skip_read :: bool

definition empty_result :: emit_result_t where
  "empty_result = \<lparr>result_operands = [], type_result = None, skip_read = False\<rparr>"

text \<open>
  How a call of the emitter ends: it returned true, it returned false, or it ran into
  undefined behaviour or an uncaught exception (a null pointer dereference, \<^verbatim>\<open>back()\<close> of
  an empty vector, \<^verbatim>\<open>any_cast\<close> of an empty value).
\<close>

datatype status = Success | Failure | Crashed

subsubsection \<open>Blocks\<close>

text \<open>
  Modelled from the spec: the class \<^verbatim>\<open>vm::basic_block\<close> is not among the sources. Each of
  its instruction members appends one instruction of that name with the operands given;
  \<^verbatim>\<open>jump_direct\<close> appends a \<^verbatim>\<open>jmp\<close>; \<^verbatim>\<open>is_current_instruction\<close> compares the op code of
  the last instruction; \<^verbatim>\<open>push_locals\<close> pushes the locals in order, but for the one
  excluded by name, and \<^verbatim>\<open>pop_locals\<close> pops them in the reverse order.
\<close>

definition make_block :: "emitter \<Rightarrow> nat \<times> emitter" where
  "make_block s = (length (blocks s), s\<lparr>blocks := blocks s @ [empty_block]\<rparr>)"

definition emit_instr :: "nat \<Rightarrow> op_codes \<Rightarrow> operand list \<Rightarrow> emitter \<Rightarrow> emitter" where
  "emit_instr b c ops s =
     s\<lparr>blocks := (blocks s)[b := (blocks s ! b)\<lparr>instructions := instructions (blocks s ! b) @ [Instruction c ops]\<rparr>]\<rparr>"

definition add_label :: "nat \<Rightarrow> string \<Rightarrow> emitter \<Rightarrow> emitter" where
  "add_label b name s =
     s\<lparr>blocks := (blocks s)[b := (blocks s ! b)\<lparr>labels := labels (blocks s ! b) @ [name]\<rparr>]\<rparr>"

definition is_current_instruction :: "nat \<Rightarrow> op_codes \<Rightarrow> emitter \<Rightarrow> bool" where
  "is_current_instruction b c s =
     (case instructions (blocks s ! b) of [] \<Rightarrow> False | ins \<Rightarrow> op (last ins) = c)"

definition sorted_locals :: "nat \<Rightarrow> emitter \<Rightarrow> string list" where
  "sorted_locals b s = locals (blocks s ! b)"

fun emit_instrs :: "nat \<Rightarrow> (op_codes \<times> operand list) list \<Rightarrow> emitter \<Rightarrow> emitter" where
  "emit_instrs b [] s = s"
| "emit_instrs b ((c, ops) # rest) s = emit_instrs b rest (emit_instr b c ops s)"

definition push_locals :: "nat \<Rightarrow> string list \<Rightarrow> string \<Rightarrow> emitter \<Rightarrow> emitter" where
  "push_locals b ls excluded s =
     emit_instrs b (map (\<lambda>n. (op_push, [Named_ref ref_local n qword])) (filter (\<lambda>n. n \<noteq> excluded) ls)) s"

definition pop_locals :: "nat \<Rightarrow> string list \<Rightarrow> string \<Rightarrow> emitter \<Rightarrow> emitter" where
  "pop_locals b ls excluded s =
     emit_instrs b (map (\<lambda>n. (op_pop, [Named_ref ref_local n qword])) (rev (filter (\<lambda>n. n \<noteq> excluded) ls))) s"

definition error :: "string \<Rightarrow> string \<Rightarrow> emitter \<Rightarrow> emitter" where
  "error code message s = s\<lparr>messages := messages s @ [(code, message)]\<rparr>"

text \<open>An operand built from a pointer to a named reference; \<open>Null_ref\<close> for a null pointer.\<close>

definition label_operand :: "string option \<Rightarrow> operand" where
  "label_operand l = (case l of None \<Rightarrow> Null_ref | Some n \<Rightarrow> Named_ref ref_label n qword)"

text \<open>A new block with a label: \<^verbatim>\<open>_blocks.make()\<close>, \<^verbatim>\<open>emplace_back\<close>, \<^verbatim>\<open>label(labels.make(...))\<close>.\<close>

definition make_labelled_block :: "string \<Rightarrow> emitter \<Rightarrow> nat \<times> emitter" where
  "make_labelled_block name s = (case make_block s of (b, s1) \<Rightarrow> (b, add_label b name s1))"

text \<open>\<^verbatim>\<open>operands.back()\<close>: undefined on an empty vector.\<close>

definition operands_back :: "operand list \<Rightarrow> operand option" where
  "operands_back ops = (if ops = [] then None else Some (last ops))"

definition add_operand :: "operand \<Rightarrow> emit_result_t \<Rightarrow> emit_result_t" where
  "add_operand x r = r\<lparr>result_operands := result_operands r @ [x]\<rparr>"

text \<open>The first statement of \<^verbatim>\<open>emit_element\<close>: \<^verbatim>\<open>e->infer_type(_session, result.type_result)\<close>.\<close>

definition infer :: "info \<Rightarrow> emit_result_t \<Rightarrow> emit_result_t" where
  "infer i r = r\<lparr>type_result := inferred_type i\<rparr>"

subsubsection \<open>The flow control stack (lines 47 to 60)\<close>

text \<open>
  The stack is a list with its top at the end, so that a pointer to a record (as
  \<^verbatim>\<open>current_flow_control\<close> returns one) is the record's index and stays good when more
  records are pushed. \<^verbatim>\<open>pop_flow_control\<close> returns when the stack is empty, and has no
  other statement.
\<close>

definition pop_flow_control :: "emitter \<Rightarrow> emitter" where
  "pop_flow_control s = (if control_flow_stack s = [] then s else s)"

definition current_flow_control :: "emitter \<Rightarrow> nat option" where
  "current_flow_control s =
     (if control_flow_stack s = [] then None else Some (length (control_flow_stack s) - 1))"

definition push_flow_control :: "flow_control_t \<Rightarrow> emitter \<Rightarrow> emitter" where
  "push_flow_control control_flow s = s\<lparr>control_flow_stack := control_flow_stack s @ [control_flow]\<rparr>"

text \<open>Reading and writing through a pointer to a flow control record.\<close>

definition flow_control :: "nat \<Rightarrow> emitter \<Rightarrow> flow_control_t" where
  "flow_control p s = control_flow_stack s ! p"

definition update_flow_control :: "nat \<Rightarrow> (flow_control_t \<Rightarrow> flow_control_t) \<Rightarrow> emitter \<Rightarrow> emitter" where
  "update_flow_control p f s =
     s\<lparr>control_flow_stack := (control_flow_stack s)[p := f (control_flow_stack s ! p)]\<rparr>"

text \<open>
  A flow control record as the designated initialisers of the emitter leave it: the
  members not named are null, empty or false.
\<close>

definition new_flow_control :: "string option \<Rightarrow> string option \<Rightarrow> expr option \<Rightarrow> flow_control_t" where
  "new_flow_control exit continue sw =
     \<lparr>exit_label = exit, continue_label = continue, switch_expression = sw,
      next_element = None, previous_element = None, fallthrough = False, predecessor = None\<rparr>"

subsubsection \<open>The element map and the builder\<close>

fun decimal :: "nat \<Rightarrow> string" where
  "decimal n =
     (if n < 10 then [''0123456789'' ! n]
      else decimal (n div 10) @ [''0123456789'' ! (n mod 10)])"

declare decimal.simps [simp del]

text \<open>
  \<^verbatim>\<open>binary_operator::on_infer_type\<close>: an arithmetic operator has the type of its left side,
  a relational or logical operator has the type bool, any other operator has none. The
  class of the bool type is not among the sources; its entry below is one byte wide.
\<close>

definition bool_type_object :: type where
  "bool_type_object = Other bool_type ''bool'' 1 integer False"

definition binary_operator_infer_type :: "operator_type_t \<Rightarrow> expr \<Rightarrow> type option" where
  "binary_operator_infer_type t lhs =
     (if t \<in> {add, modulo, divide, subtract, multiply, exponent, binary_or, binary_and,
               binary_xor, shift_left, shift_right, rotate_left, rotate_right}
      then inferred_type (expr_info lhs)
      else if t \<in> {equals, less_than, not_equals, logical_or, logical_and, greater_than,
                    less_than_or_equal, greater_than_or_equal}
      then Some bool_type_object
      else None)"

text \<open>
  Modelled from the spec: \<^verbatim>\<open>element_builder\<close>, \<^verbatim>\<open>element_map\<close> and the id pool are not among
  the sources. The builder stamps a fresh id on the element it makes and the element map
  becomes its owner; the label name of the element is generated from the id.
  \<^verbatim>\<open>remove(id)\<close> detaches an element and all its owned children. The owned children of a
  binary operator are its two sides (\<^verbatim>\<open>binary_operator::on_owned_elements\<close>), unless it has
  been made non-owning; the other expressions are taken to own their sub-expressions.
\<close>

definition make_binary_operator :: "operator_type_t \<Rightarrow> expr \<Rightarrow> expr \<Rightarrow> emitter \<Rightarrow> expr \<times> emitter" where
  "make_binary_operator t lhs rhs s =
     (Binary_operator
        \<lparr>element_id = next_id s,
         label_name = ''_binary_operator_'' @ decimal (next_id s),
         inferred_type = binary_operator_infer_type t lhs\<rparr> True t lhs rhs,
      s\<lparr>next_id := Suc (next_id s), elements := insert (next_id s) (elements s)\<rparr>)"

fun make_non_owning :: "expr \<Rightarrow> expr" where
  "make_non_owning (Binary_operator i owning t lhs rhs) = Binary_operator i False t lhs rhs"
| "make_non_owning e = e"

fun owned_ids :: "expr \<Rightarrow> nat set" where
  "owned_ids (Nil_literal i) = {element_id i}"
| "owned_ids (Boolean_literal i _) = {element_id i}"
| "owned_ids (Integer_literal i _) = {element_id i}"
| "owned_ids (Identifier i) = {element_id i}"
| "owned_ids (Identifier_reference i _) = {element_id i}"
| "owned_ids (Cast i e _) = insert (element_id i) (owned_ids e)"
| "owned_ids (Transmute i e _) = insert (element_id i) (owned_ids e)"
| "owned_ids (Binary_operator i owning _ lhs rhs) =
     insert (element_id i) (if owning then owned_ids lhs \<union> owned_ids rhs else {})"
| "owned_ids (Argument_list i _ _ es) = insert (element_id i) (\<Union> (set (map owned_ids es)))"
| "owned_ids (Proc_call i _ _ al) =
     insert (element_id i) (case al of None \<Rightarrow> {} | Some a \<Rightarrow> owned_ids a)"

definition remove :: "expr \<Rightarrow> emitter \<Rightarrow> emitter" where
  "remove e s = s\<lparr>elements := elements s - owned_ids e\<rparr>"

subsection \<open>Lowering of expressions (\<^verbatim>\<open>byte_code_emitter::emit_element\<close>, expression cases)\<close>

text \<open>
  The default size argument of \<^verbatim>\<open>assembler.make_named_ref\<close> and the size of an operand
  built from a bare 64-bit constant are taken as qword.
\<close>

subsubsection \<open>Cast (lines 175 to 318) and transmute (lines 1203 to 1251)\<close>

datatype cast_mode_t =
    noop | integer_truncate | integer_sign_extend | integer_zero_extend
  | float_extend | float_truncate | float_to_integer | integer_to_float

text \<open>
  The selection of the mode, lines 241 to 270, entered once both number classes are known
  not to be \<^verbatim>\<open>none\<close>. The signedness is read through
  \<^verbatim>\<open>dynamic_cast<compiler::numeric_type*>\<close>: for a source that is no numeric type the cast
  gives null and the read is a null pointer dereference, \<open>None\<close> here.
\<close>

definition cast_mode :: "type \<Rightarrow> type \<Rightarrow> cast_mode_t option" where
  "cast_mode source target =
     (if number_class source = integer \<and> number_class target = integer then
        (if size_in_bytes source = size_in_bytes target then Some integer_truncate
         else if size_in_bytes source > size_in_bytes target then Some integer_truncate
         else (case source of
                 Numeric n \<Rightarrow>
                   if numeric_is_signed n then Some integer_sign_extend
                   else Some integer_zero_extend
               | _ \<Rightarrow> None))
      else if number_class source = floating_point \<and> number_class target = floating_point then
        (if size_in_bytes source = size_in_bytes target then Some float_truncate
         else if size_in_bytes source > size_in_bytes target then Some float_truncate
         else Some float_extend)
      else if number_class source = integer then Some integer_to_float
      else Some float_to_integer)"

text \<open>The switch over the mode, lines 285 to 316: the instruction that is appended, if any.\<close>

fun cast_op :: "cast_mode_t \<Rightarrow> op_codes option" where
  "cast_op noop = None"
| "cast_op integer_truncate = Some op_move"
| "cast_op integer_sign_extend = Some op_moves"
| "cast_op integer_zero_extend = Some op_movez"
| "cast_op float_extend = Some op_convert"
| "cast_op float_truncate = Some op_convert"
| "cast_op integer_to_float = Some op_convert"
| "cast_op float_to_integer = Some op_convert"

text \<open>
  The cast case after its expression has been emitted: \<open>current_block\<close> is the block the
  case was entered with, \<open>bb\<close> is \<^verbatim>\<open>*basic_block\<close>, \<open>er\<close> the expression's result.
\<close>

definition emit_cast :: "type \<Rightarrow> nat \<Rightarrow> nat \<Rightarrow> emit_result_t \<Rightarrow> emit_result_t \<Rightarrow> emitter
    \<Rightarrow> status \<times> nat \<times> emit_result_t \<times> emitter" where
  "emit_cast target current_block bb er r s =
     (case type_result er of
        None \<Rightarrow> (Crashed, bb, r, s)
      | Some source \<Rightarrow>
          if number_class source = none then
            (Failure, bb, r, error ''C073'' (''cannot cast from type: '' @ type_name source) s)
          else if number_class target = none then
            (Failure, bb, r, error ''C073'' (''cannot cast to type: '' @ type_name target) s)
          else
            (case cast_mode source target of
               None \<Rightarrow> (Crashed, bb, r, s)
             | Some mode \<Rightarrow>
                 let target_operand = Named_ref ref_local [] (op_size_for_byte_size (size_in_bytes target));
                     r = add_operand target_operand r
                 in (case cast_op mode of
                       None \<Rightarrow> (Success, bb, r, s)
                     | Some c \<Rightarrow>
                         (case operands_back (result_operands er) of
                            None \<Rightarrow> (Crashed, bb, r, s)
                          | Some x \<Rightarrow> (Success, bb, r, emit_instr current_block c [target_operand, x] s)))))"

definition emit_transmute :: "type \<Rightarrow> nat \<Rightarrow> nat \<Rightarrow> emit_result_t \<Rightarrow> emit_result_t \<Rightarrow> emitter
    \<Rightarrow> status \<times> nat \<times> emit_result_t \<times> emitter" where
  "emit_transmute target current_block bb er r s =
     (case type_result er of
        None \<Rightarrow> (Crashed, bb, r, s)
      | Some source \<Rightarrow>
          if number_class source = none then
            (Failure, bb, r, error ''C073'' (''cannot transmute from type: '' @ type_name source) s)
          else if number_class target = none then
            (Failure, bb, r, error ''C073'' (''cannot transmute to type: '' @ type_name target) s)
          else
            (let target_operand = Named_ref ref_local [] (op_size_for_byte_size (size_in_bytes target));
                 r = add_operand target_operand r
             in case operands_back (result_operands er) of
                  None \<Rightarrow> (Crashed, bb, r, s)
                | Some x \<Rightarrow> (Success, bb, r, emit_instr current_block op_move [target_operand, x, Empty] s)))"

subsubsection \<open>Identifiers (lines 1291 to 1303)\<close>

definition identifier_op_size :: "type option \<Rightarrow> op_sizes" where
  "identifier_op_size t =
     (case t of
        None \<Rightarrow> qword
      | Some ty \<Rightarrow> if \<not> is_composite_type ty then op_size_for_byte_size (size_in_bytes ty) else qword)"

subsubsection \<open>Binary operators (lines 1498 to 1653, 2687 to 2946)\<close>

definition is_arithmetic_operator :: "operator_type_t \<Rightarrow> bool" where
  "is_arithmetic_operator t =
     (t \<in> {add, modulo, divide, subtract, multiply, exponent, binary_or, shift_left,
            binary_and, binary_xor, shift_right, rotate_left, rotate_right})"

definition is_relational_operator :: "operator_type_t \<Rightarrow> bool" where
  "is_relational_operator t =
     (t \<in> {equals, less_than, not_equals, logical_or, logical_and, greater_than,
            less_than_or_equal, greater_than_or_equal})"

text \<open>
  Modelled from the spec: \<^verbatim>\<open>is_logical_conjunction_operator\<close> is not among the sources; the
  short-circuiting operators are logical and and logical or.
\<close>

definition is_logical_conjunction_operator :: "operator_type_t \<Rightarrow> bool" where
  "is_logical_conjunction_operator t = (t = logical_or \<or> t = logical_and)"

fun arithmetic_op :: "operator_type_t \<Rightarrow> op_codes option" where
  "arithmetic_op add = Some op_add"
| "arithmetic_op divide = Some op_div"
| "arithmetic_op modulo = Some op_mod"
| "arithmetic_op multiply = Some op_mul"
| "arithmetic_op exponent = Some op_pow"
| "arithmetic_op subtract = Some op_sub"
| "arithmetic_op binary_or = Some op_or"
| "arithmetic_op shift_left = Some op_shl"
| "arithmetic_op binary_and = Some op_and"
| "arithmetic_op binary_xor = Some op_xor"
| "arithmetic_op rotate_left = Some op_rol"
| "arithmetic_op shift_right = Some op_shr"
| "arithmetic_op rotate_right = Some op_ror"
| "arithmetic_op _ = None"

text \<open>\<^verbatim>\<open>emit_arithmetic_operator\<close> after both sides have been emitted.\<close>

definition arithmetic_finish :: "operator_type_t \<Rightarrow> nat \<Rightarrow> emit_result_t \<Rightarrow> emit_result_t \<Rightarrow> emit_result_t
    \<Rightarrow> emitter \<Rightarrow> status \<times> nat \<times> emit_result_t \<times> emitter" where
  "arithmetic_finish t bb lhs_result rhs_result r s =
     (case type_result r of
        None \<Rightarrow> (Crashed, bb, r, s)
      | Some ty \<Rightarrow>
          let result_operand = Named_ref ref_local [] (op_size_for_byte_size (size_in_bytes ty));
              r = add_operand result_operand r
          in (case arithmetic_op t of
                None \<Rightarrow> (Success, bb, r, s)
              | Some c \<Rightarrow>
                  (case (operands_back (result_operands lhs_result), operands_back (result_operands rhs_result)) of
                     (Some x, Some y) \<Rightarrow> (Success, bb, r, emit_instr bb c [result_operand, x, y] s)
                   | _ \<Rightarrow> (Crashed, bb, r, s))))"

fun relational_op :: "operator_type_t \<Rightarrow> bool \<Rightarrow> op_codes option" where
  "relational_op equals sg = Some op_setz"
| "relational_op less_than sg = Some (if sg then op_setl else op_setb)"
| "relational_op not_equals sg = Some op_setnz"
| "relational_op greater_than sg = Some (if sg then op_setg else op_seta)"
| "relational_op less_than_or_equal sg = Some (if sg then op_setle else op_setbe)"
| "relational_op greater_than_or_equal sg = Some (if sg then op_setge else op_setae)"
| "relational_op _ sg = None"

text \<open>
  The two branches of \<^verbatim>\<open>emit_relational_operator\<close> once both sides have been emitted:
  the short-circuit of a logical operator, and the comparison. Each gives the block that
  is current after it. \<open>x\<close> and \<open>y\<close> are the last operands of the two sides.
\<close>

definition logical_body :: "string \<Rightarrow> operator_type_t \<Rightarrow> nat \<Rightarrow> operand \<Rightarrow> operand \<Rightarrow> emitter \<Rightarrow> nat \<times> emitter" where
  "logical_body name t bb x y s =
     (case make_labelled_block (name @ ''_rhs_eval'')
             (emit_instr bb (if t = logical_or then op_bnz else op_bz)
                [Named_ref ref_local [] byte, Named_ref ref_label (name @ ''_exit'') qword]
                (emit_instr bb op_move [Named_ref ref_local [] byte, x]
                   (add_label bb (name @ ''_lhs_eval'') s))) of
        (rhs_eval_block, s1) \<Rightarrow>
          (rhs_eval_block, emit_instr rhs_eval_block op_move [Named_ref ref_local [] byte, y] s1))"

definition comparison_body :: "operator_type_t \<Rightarrow> bool \<Rightarrow> nat \<Rightarrow> operand \<Rightarrow> operand \<Rightarrow> emitter \<Rightarrow> nat \<times> emitter" where
  "comparison_body t sg bb x y s =
     (case relational_op t sg of
        None \<Rightarrow> (bb, emit_instr bb op_cmp [x, y] s)
      | Some c \<Rightarrow> (bb, emit_instr bb c [Named_ref ref_local [] byte] (emit_instr bb op_cmp [x, y] s)))"

text \<open>
  \<^verbatim>\<open>emit_relational_operator\<close> after both sides have been emitted; the result operand has
  been added to the result before.
\<close>

definition relational_finish :: "string \<Rightarrow> operator_type_t \<Rightarrow> nat \<Rightarrow> emit_result_t \<Rightarrow> emit_result_t
    \<Rightarrow> emit_result_t \<Rightarrow> emitter \<Rightarrow> status \<times> nat \<times> emit_result_t \<times> emitter" where
  "relational_finish name t bb lhs_result rhs_result r s =
     (case type_result lhs_result of
        None \<Rightarrow> (Crashed, bb, r, s)
      | Some lhs_type \<Rightarrow>
          (case (operands_back (result_operands lhs_result), operands_back (result_operands rhs_result)) of
             (Some x, Some y) \<Rightarrow>
               (case (if is_logical_conjunction_operator t then logical_body name t bb x y s
                      else comparison_body t (is_signed lhs_type) bb x y s) of
                  (bb1, s1) \<Rightarrow>
                    (case make_labelled_block (name @ ''_exit'') s1 of
                       (exit_block, s2) \<Rightarrow> (Success, exit_block, r, emit_instr exit_block op_nop [] s2)))
           | _ \<Rightarrow> (Crashed, bb, r, s)))"

text \<open>
  The assignment case after both sides have been emitted: \<open>current_block\<close> is the block the
  case was entered with, \<open>bb\<close> is \<^verbatim>\<open>*basic_block\<close>.
\<close>

definition assignment_finish :: "nat \<Rightarrow> nat \<Rightarrow> emit_result_t \<Rightarrow> emit_result_t \<Rightarrow> emit_result_t
    \<Rightarrow> emitter \<Rightarrow> status \<times> nat \<times> emit_result_t \<times> emitter" where
  "assignment_finish current_block bb lhs_result rhs_result r s =
     (case (type_result lhs_result, type_result rhs_result) of
        (Some lhs_type, Some rhs_type) \<Rightarrow>
          let lhs_is_composite = is_composite_type lhs_type;
              rhs_is_composite = is_composite_type rhs_type
          in if \<not> is_pointer_type lhs_type \<and> lhs_is_composite \<and> \<not> rhs_is_composite then
               (Failure, bb, r, error ''X000'' ''cannot assign scalar to composite type.'' s)
             else if \<not> is_pointer_type lhs_type \<and> \<not> lhs_is_composite \<and> rhs_is_composite then
               (Failure, bb, r, error ''X000'' ''cannot assign composite type to scalar.'' s)
             else
               (let copy_required = (\<not> is_pointer_type lhs_type \<and> lhs_is_composite \<and> rhs_is_composite);
                    has_offset = (length (result_operands lhs_result) = 2)
                in case (operands_back (result_operands lhs_result), operands_back (result_operands rhs_result)) of
                     (Some x, Some y) \<Rightarrow>
                       if copy_required then
                         (let size = Immediate (size_in_bytes rhs_type) qword
                          in if has_offset then
                               (let temp_target = Named_ref ref_local [] qword;
                                    s = emit_instr current_block op_move [temp_target, hd (result_operands lhs_result), x] s;
                                    s = emit_instr current_block op_copy [temp_target, y, size] s
                                in (Success, bb, r, s))
                             else (Success, bb, r, emit_instr current_block op_copy [x, y, size] s))
                       else if has_offset then
                         (Success, bb, r,
                          emit_instr current_block op_store
                            [result_operands lhs_result ! 0, y, result_operands lhs_result ! 1] s)
                       else (Success, bb, r, emit_instr current_block op_store [x, y] s)
                   | _ \<Rightarrow> (Crashed, bb, r, s))
      | _ \<Rightarrow> (Crashed, bb, r, s))"

subsubsection \<open>Procedure calls (lines 1053 to 1201) and arguments (lines 2601 to 2685)\<close>

text \<open>The part of the call case before the argument list is emitted.\<close>

definition proc_call_begin :: "info \<Rightarrow> procedure_type \<Rightarrow> nat \<Rightarrow> emitter \<Rightarrow> string list \<times> nat \<times> emitter" where
  "proc_call_begin i pt current_block s =
     (case make_labelled_block (label_name i @ ''_prologue'') s of
        (prologue_block, s1) \<Rightarrow>
          (sorted_locals current_block s, prologue_block,
           if \<not> is_foreign pt then push_locals prologue_block (sorted_locals current_block s) [] s1
           else s1))"

fun ffi_arguments_ok :: "expr \<Rightarrow> bool" where
  "ffi_arguments_ok (Argument_list _ _ ok _) = ok"
| "ffi_arguments_ok _ = False"

text \<open>
  The rest of the call case, in three parts: the call instruction of the invoke block;
  the epilogue block; and both with the return slot before them. \<open>prologue_block\<close> is
  \<^verbatim>\<open>*basic_block\<close> after the arguments. \<^verbatim>\<open>return_temp_name\<close> is the empty string
  throughout (the assignment to it is commented out), so the epilogue pops no return
  value.
\<close>

definition proc_call_invoke :: "string \<Rightarrow> procedure_type \<Rightarrow> expr option \<Rightarrow> nat \<Rightarrow> emitter \<Rightarrow> status \<times> emitter" where
  "proc_call_invoke callee pt arg_list call_block s =
     (if is_foreign pt then
        (case ffi_functions s (foreign_address pt) of
           None \<Rightarrow> (Failure, error ''X000'' ''unable to find foreign function by address'' s)
         | Some variadic \<Rightarrow>
             if variadic then
               (case arg_list of
                  None \<Rightarrow> (Crashed, s)
                | Some al \<Rightarrow>
                    if \<not> ffi_arguments_ok al then (Failure, s)
                    else
                      (Success,
                       emit_instr call_block op_call_foreign
                         [Immediate (foreign_address pt) qword, Immediate (next_id s) dword]
                         (s\<lparr>next_id := Suc (next_id s),
                            call_site_arguments := call_site_arguments s @ [(foreign_address pt, next_id s)]\<rparr>)))
             else (Success, emit_instr call_block op_call_foreign [Immediate (foreign_address pt) qword] s))
      else (Success, emit_instr call_block op_call [Named_ref ref_label callee qword] s))"

definition proc_call_epilogue :: "info \<Rightarrow> procedure_type \<Rightarrow> expr option \<Rightarrow> string list
    \<Rightarrow> emit_result_t \<Rightarrow> emitter \<Rightarrow> status \<times> nat \<times> emit_result_t \<times> emitter" where
  "proc_call_epilogue i pt arg_list ls r s =
     (case make_labelled_block (label_name i @ ''_epilogue'') s of
        (epilogue_block, s1) \<Rightarrow>
          (case arg_list of
             None \<Rightarrow> (Crashed, epilogue_block, r, s1)
           | Some al \<Rightarrow>
               (Success, epilogue_block, r,
                (if \<not> is_foreign pt then pop_locals epilogue_block ls [] else (\<lambda>s. s))
                  (if allocated_size s1 (element_id (expr_info al)) > 0
                   then emit_instr epilogue_block op_add
                          [SP, SP, Immediate (allocated_size s1 (element_id (expr_info al))) word] s1
                   else s1))))"

definition proc_call_finish :: "info \<Rightarrow> string \<Rightarrow> procedure_type \<Rightarrow> expr option \<Rightarrow> string list \<Rightarrow> nat
    \<Rightarrow> emit_result_t \<Rightarrow> emitter \<Rightarrow> status \<times> nat \<times> emit_result_t \<times> emitter" where
  "proc_call_finish i callee pt arg_list ls prologue_block r s =
     (case make_labelled_block (label_name i @ ''_invoke'')
             (if \<not> is_foreign pt \<and> return_type pt \<noteq> None
              then emit_instr prologue_block op_sub [SP, SP, Immediate 8 byte] s else s) of
        (call_block, s1) \<Rightarrow>
          (case proc_call_invoke callee pt arg_list call_block s1 of
             (st, s2) \<Rightarrow>
               if st \<noteq> Success then (st, call_block, r, s2)
               else proc_call_epilogue i pt arg_list ls r s2))"

text \<open>
  The body of the loop of \<^verbatim>\<open>emit_arguments\<close> for an argument that has been emitted into
  \<open>arg_result\<close>: the push, and the update of the argument list's allocated size.
\<close>

definition push_argument :: "nat \<Rightarrow> bool \<Rightarrow> nat \<Rightarrow> emit_result_t \<Rightarrow> emitter \<Rightarrow> status \<times> nat \<times> emitter" where
  "push_argument arg_list foreign_call bb arg_result s =
     (if \<not> foreign_call then
        (case type_result arg_result of
           None \<Rightarrow> (Crashed, bb, s)
         | Some ty \<Rightarrow>
             (case operands_back (result_operands arg_result) of
                None \<Rightarrow> (Crashed, bb, s)
              | Some x \<Rightarrow>
                  let size = align (size_in_bytes ty) 8;
                      s = (if element_type ty \<in> {array_type, tuple_type, composite_type} then
                             emit_instr bb op_copy [SP, x, Immediate size word]
                               (emit_instr bb op_sub [SP, SP, Immediate size word] s)
                           else emit_instr bb op_push [x] s)
                  in (Success, bb, s\<lparr>allocated_size := (allocated_size s)(arg_list := allocated_size s arg_list + size)\<rparr>)))
      else
        (case operands_back (result_operands arg_result) of
           None \<Rightarrow> (Crashed, bb, s)
         | Some x \<Rightarrow> (Success, bb, emit_instr bb op_push [x] s)))"

text \<open>
  The expression cases of \<^verbatim>\<open>emit_element\<close>, with \<^verbatim>\<open>emit_arithmetic_operator\<close>,
  \<^verbatim>\<open>emit_relational_operator\<close> and \<^verbatim>\<open>emit_arguments\<close>. The arguments are the element, the
  block \<^verbatim>\<open>*basic_block\<close> points to, the result object and the state; the outcome holds
  the new \<^verbatim>\<open>*basic_block\<close>, result and state. \<^verbatim>\<open>emit_arguments\<close> walks the elements from
  the last to the first (\<^verbatim>\<open>rbegin\<close> to \<^verbatim>\<open>rend\<close>): the tail of the list is handled before
  its head.
\<close>

fun emit_expr :: "expr \<Rightarrow> nat \<Rightarrow> emit_result_t \<Rightarrow> emitter \<Rightarrow> status \<times> nat \<times> emit_result_t \<times> emitter"
  and emit_arguments :: "nat \<Rightarrow> bool \<Rightarrow> expr list \<Rightarrow> nat \<Rightarrow> emitter \<Rightarrow> status \<times> nat \<times> emitter"
where
  "emit_expr (Nil_literal i) bb r s =
     (Success, bb, add_operand (Immediate 0 qword) (infer i r), s)"
| "emit_expr (Boolean_literal i v) bb r s =
     (Success, bb, add_operand (Immediate (if v then 1 else 0) byte) (infer i r), s)"
| "emit_expr (Integer_literal i v) bb r s =
     (case inferred_type i of
        None \<Rightarrow> (Crashed, bb, infer i r, s)
      | Some ty \<Rightarrow>
          (Success, bb, add_operand (Immediate v (op_size_for_byte_size (size_in_bytes ty))) (infer i r), s))"
| "emit_expr (Identifier i) bb r s =
     (Success, bb,
      add_operand (Named_ref ref_local (label_name i) (identifier_op_size (inferred_type i))) (infer i r), s)"
| "emit_expr (Identifier_reference i identifier) bb r s =
     (case identifier of
        None \<Rightarrow> (Success, bb, infer i r, s)
      | Some e \<Rightarrow> emit_expr e bb (infer i r) s)"
| "emit_expr (Cast i e target) bb r s =
     (case emit_expr e bb empty_result s of
        (st, bb1, expr_result, s1) \<Rightarrow>
          if st \<noteq> Success then (st, bb1, infer i r, s1)
          else emit_cast target bb bb1 expr_result (infer i r) s1)"
| "emit_expr (Transmute i e target) bb r s =
     (case emit_expr e bb empty_result s of
        (st, bb1, expr_result, s1) \<Rightarrow>
          if st \<noteq> Success then (st, bb1, infer i r, s1)
          else emit_transmute target bb bb1 expr_result (infer i r) s1)"
| "emit_expr (Binary_operator i owning t lhs rhs) bb r s =
     (if is_arithmetic_operator t then
        (case emit_expr lhs bb empty_result s of
           (st, bb1, lhs_result, s1) \<Rightarrow>
             if st \<noteq> Success then (st, bb1, infer i r, s1)
             else
               (case emit_expr rhs bb1 empty_result s1 of
                  (st, bb2, rhs_result, s2) \<Rightarrow>
                    if st \<noteq> Success then (st, bb2, infer i r, s2)
                    else arithmetic_finish t bb2 lhs_result rhs_result (infer i r) s2))
      else if is_relational_operator t then
        (case emit_expr lhs bb empty_result s of
           (st, bb1, lhs_result, s1) \<Rightarrow>
             if st \<noteq> Success then (st, bb1, add_operand (Named_ref ref_local [] byte) (infer i r), s1)
             else
               (case emit_expr rhs bb1 empty_result s1 of
                  (st, bb2, rhs_result, s2) \<Rightarrow>
                    if st \<noteq> Success then (st, bb2, add_operand (Named_ref ref_local [] byte) (infer i r), s2)
                    else relational_finish (label_name i) t bb2 lhs_result rhs_result
                           (add_operand (Named_ref ref_local [] byte) (infer i r)) s2))
      else if t = subscript then (Success, bb, infer i r, emit_instr bb op_nop [] s)
      else
        (case emit_expr rhs bb empty_result s of
           (st, bb1, rhs_result, s1) \<Rightarrow>
             if st \<noteq> Success then (st, bb1, infer i r, s1)
             else
               (case emit_expr lhs bb1 empty_result s1 of
                  (st, bb2, lhs_result, s2) \<Rightarrow>
                    if st \<noteq> Success then (st, bb2, infer i r, s2)
                    else assignment_finish bb bb2 lhs_result rhs_result (infer i r) s2)))"
| "emit_expr (Argument_list i foreign_call ok es) bb r s =
     (case emit_arguments (element_id i) foreign_call es bb s of
        (st, bb1, s1) \<Rightarrow> (st, bb1, infer i r, s1))"
| "emit_expr (Proc_call i callee pt arg_list) bb r s =
     (case proc_call_begin i pt bb s of
        (ls, prologue_block, s1) \<Rightarrow>
          (case arg_list of
             None \<Rightarrow> proc_call_finish i callee pt arg_list ls prologue_block (infer i r) s1
           | Some al \<Rightarrow>
               (case emit_expr al prologue_block empty_result s1 of
                  (st, bb1, arg_list_result, s2) \<Rightarrow>
                    if st \<noteq> Success then (st, bb1, infer i r, s2)
                    else proc_call_finish i callee pt arg_list ls bb1 (infer i r) s2)))"
| "emit_arguments arg_list foreign_call [] bb s = (Success, bb, s)"
| "emit_arguments arg_list foreign_call (arg # right) bb s =
     (case emit_arguments arg_list foreign_call right bb s of
        (st, bb1, s1) \<Rightarrow>
          if st \<noteq> Success then (st, bb1, s1)
          else
            (case arg of
               Argument_list i2 foreign_call2 ok2 es2 \<Rightarrow>
                 emit_arguments (element_id i2) foreign_call2 es2 bb1 s1
             | Identifier i2 \<Rightarrow> (Success, bb1, s1)
             | _ \<Rightarrow>
                 (case emit_expr arg bb1 empty_result s1 of
                    (st, bb2, arg_result, s2) \<Rightarrow>
                      if st \<noteq> Success then (st, bb2, s2)
                      else push_argument arg_list foreign_call bb2 arg_result s2)))"

subsection \<open>Lowering of statements (\<^verbatim>\<open>byte_code_emitter::emit_element\<close>, \<^verbatim>\<open>emit_block\<close>)\<close>

subsubsection \<open>If (lines 320 to 396)\<close>

definition if_jump :: "info \<Rightarrow> nat \<Rightarrow> emitter \<Rightarrow> emitter" where
  "if_jump i true_block s =
     (if \<not> is_current_instruction true_block op_jmp s \<and> \<not> is_current_instruction true_block op_rts s
      then emit_instr true_block op_jmp [Named_ref ref_label (label_name i @ ''_exit'') qword] s
      else s)"

definition if_exit :: "info \<Rightarrow> emit_result_t \<Rightarrow> emitter \<Rightarrow> status \<times> nat \<times> emit_result_t \<times> emitter" where
  "if_exit i r s =
     (case make_labelled_block (label_name i @ ''_exit'') s of
        (exit_block, s1) \<Rightarrow> (Success, exit_block, r, s1))"

subsubsection \<open>For over a range (lines 407 to 581)\<close>

text \<open>The two switches over \<^verbatim>\<open>kind_value\<close> and \<^verbatim>\<open>dir_value\<close>, lines 462 to 499.\<close>

definition step_op_type :: "nat \<Rightarrow> operator_type_t" where
  "step_op_type dir_value = (if dir_value = 0 then add else subtract)"

definition cmp_op_type :: "nat \<Rightarrow> nat \<Rightarrow> operator_type_t" where
  "cmp_op_type kind_value dir_value =
     (if kind_value = 0 then
        (if dir_value = 0 then less_than_or_equal
         else if dir_value = 1 then greater_than_or_equal
         else less_than)
      else if kind_value = 1 then
        (if dir_value = 0 then less_than
         else if dir_value = 1 then greater_than
         else less_than)
      else less_than)"

text \<open>
  The for loop after its body has been emitted: the step block, the two operators of the
  induction step, and the exit block. At the end of the scope the deferred removals run,
  the latest first, and then \<^verbatim>\<open>pop_flow_control\<close>.
\<close>

definition for_step :: "info \<Rightarrow> expr \<Rightarrow> expr \<Rightarrow> nat \<Rightarrow> expr \<Rightarrow> expr \<Rightarrow> emit_result_t \<Rightarrow> emitter
    \<Rightarrow> status \<times> nat \<times> emit_result_t \<times> emitter" where
  "for_step i induction step dir_value induction_init comparison_op r s =
     (case make_block s of
        (step_block, s1) \<Rightarrow>
          (case make_binary_operator (step_op_type dir_value) induction step s1 of
             (induction_step, s2) \<Rightarrow>
               (case make_binary_operator assignment induction (make_non_owning induction_step) s2 of
                  (induction_assign, s3) \<Rightarrow>
                    (case emit_expr (make_non_owning induction_assign) step_block r s3 of
                       (st, bb1, r1, s4) \<Rightarrow>
                         if st \<noteq> Success then
                           (st, bb1, r1,
                            pop_flow_control
                              (remove induction_init
                                 (remove comparison_op
                                    (remove (make_non_owning induction_step)
                                       (remove (make_non_owning induction_assign) s4)))))
                         else
                           (case make_labelled_block (label_name i @ ''_exit'')
                                   (emit_instr step_block op_jmp
                                      [Named_ref ref_label (label_name i @ ''_entry'') qword] s4) of
                              (exit_block, s5) \<Rightarrow>
                                (Success, exit_block, r1,
                                 pop_flow_control
                                   (remove induction_init
                                      (remove comparison_op
                                         (remove (make_non_owning induction_step)
                                            (remove (make_non_owning induction_assign) s5))))))))))"

text \<open>
  The for loop up to its body: the flow control record, the initialisation of the
  induction variable, the comparison and the branch. The outcome holds \<^verbatim>\<open>*basic_block\<close>,
  the result, the two operators made so far, \<^verbatim>\<open>dir_value\<close> and the body block. On a
  path that returns false the deferred calls have run.
\<close>

definition for_begin :: "info \<Rightarrow> expr \<Rightarrow> expr \<Rightarrow> expr \<Rightarrow> expr \<Rightarrow> expr \<Rightarrow> emit_result_t \<Rightarrow> emitter
    \<Rightarrow> status \<times> nat \<times> emit_result_t \<times> expr \<times> expr \<times> nat \<times> emitter" where
  "for_begin i induction start stop dir kind r s =
     (case make_binary_operator assignment induction start
             (push_flow_control
                (new_flow_control (Some (label_name i @ ''_exit'')) (Some (label_name i @ ''_entry'')) None) s) of
        (induction_init, s1) \<Rightarrow>
          (case make_block s1 of
             (init_block, s2) \<Rightarrow>
               (case emit_expr (make_non_owning induction_init) init_block r s2 of
                  (st, bb1, r1, s3) \<Rightarrow>
                    if st \<noteq> Success then
                      (st, bb1, r1, make_non_owning induction_init, make_non_owning induction_init, 0,
                       pop_flow_control (remove (make_non_owning induction_init) s3))
                    else
                      (case (as_integer dir, as_integer kind) of
                         (Some dir_value, Some kind_value) \<Rightarrow>
                           (case make_labelled_block (label_name i @ ''_entry'') s3 of
                              (predicate_block, s4) \<Rightarrow>
                                (case make_binary_operator (cmp_op_type kind_value dir_value) induction stop s4 of
                                   (comparison_op, s5) \<Rightarrow>
                                     (case emit_expr (make_non_owning comparison_op) predicate_block empty_result s5 of
                                        (st, bb2, cmp_result, s6) \<Rightarrow>
                                          if st \<noteq> Success then
                                            (st, bb2, r1, make_non_owning induction_init, make_non_owning comparison_op,
                                             dir_value,
                                             pop_flow_control
                                               (remove (make_non_owning induction_init)
                                                  (remove (make_non_owning comparison_op) s6)))
                                          else
                                            (case operands_back (result_operands cmp_result) of
                                               None \<Rightarrow>
                                                 (Crashed, bb2, r1, make_non_owning induction_init,
                                                  make_non_owning comparison_op, dir_value, s6)
                                             | Some x \<Rightarrow>
                                                 (case make_labelled_block (label_name i @ ''_body'')
                                                         (emit_instr predicate_block op_bz
                                                            [x, Named_ref ref_label (label_name i @ ''_exit'') qword] s6) of
                                                    (body_block, s7) \<Rightarrow>
                                                      (Success, body_block, r1, make_non_owning induction_init,
                                                       make_non_owning comparison_op, dir_value, s7))))))
                       | _ \<Rightarrow>
                           (Failure, bb1, r1, make_non_owning induction_init, make_non_owning induction_init, 0,
                            pop_flow_control (remove (make_non_owning induction_init) s3))))))"

subsubsection \<open>Case (lines 623 to 722)\<close>

text \<open>
  The label a fallthrough jumps to: the true label of the next statement's case. The
  result \<open>None\<close> is a null pointer dereference (a next statement without expression).
\<close>

definition fallthrough_label_of :: "statement option \<Rightarrow> string option option" where
  "fallthrough_label_of next =
     (case next of
        None \<Rightarrow> Some None
      | Some (Statement ni nl None) \<Rightarrow> None
      | Some (Statement ni nl (Some (Case_e ci ce cs))) \<Rightarrow> Some (Some (label_name ci @ ''_true''))
      | Some (Statement ni nl (Some other)) \<Rightarrow> Some None)"

text \<open>
  The block \<^verbatim>\<open>if (!is_default_case) { ... }\<close>: the comparison of the switch expression with
  the case expression. \<open>p\<close> points to the flow control record. The outcome holds the
  fallthrough label and \<^verbatim>\<open>*basic_block\<close>.
\<close>

definition case_predicate :: "info \<Rightarrow> expr option \<Rightarrow> nat \<Rightarrow> nat \<Rightarrow> emitter
    \<Rightarrow> status \<times> string option \<times> nat \<times> emitter" where
  "case_predicate i expression p bb s =
     (case expression of
        None \<Rightarrow> (Success, None, bb, s)
      | Some e \<Rightarrow>
          (case next_element (flow_control p s) of
             None \<Rightarrow> (Crashed, None, bb, s)
           | Some next \<Rightarrow>
               (case fallthrough_label_of next of
                  None \<Rightarrow> (Crashed, None, bb, s)
                | Some fallthrough_label \<Rightarrow>
                    (case switch_expression (flow_control p s) of
                       None \<Rightarrow> (Crashed, fallthrough_label, bb, s)
                     | Some switch_expr \<Rightarrow>
                         (case make_binary_operator equals switch_expr e s of
                            (equals_op, s1) \<Rightarrow>
                              (case make_block s1 of
                                 (predicate_block, s2) \<Rightarrow>
                                   (case emit_expr (make_non_owning equals_op) predicate_block empty_result
                                           (update_flow_control p (\<lambda>c. c\<lparr>predecessor := Some predicate_block\<rparr>) s2) of
                                      (st, bb1, equals_result, s3) \<Rightarrow>
                                        if st \<noteq> Success then
                                          (st, fallthrough_label, bb1, remove (make_non_owning equals_op) s3)
                                        else
                                          (case operands_back (result_operands equals_result) of
                                             None \<Rightarrow> (Crashed, fallthrough_label, bb1, s3)
                                           | Some x \<Rightarrow>
                                               (Success, fallthrough_label, bb1,
                                                remove (make_non_owning equals_op)
                                                  (emit_instr predicate_block op_bz
                                                     [x, Named_ref ref_label (label_name i @ ''_false'') qword] s3))))))))))"

text \<open>The case after its scope has been emitted.\<close>

definition case_finish :: "info \<Rightarrow> expr option \<Rightarrow> nat \<Rightarrow> string option \<Rightarrow> nat \<Rightarrow> emit_result_t \<Rightarrow> emitter
    \<Rightarrow> status \<times> nat \<times> emit_result_t \<times> emitter" where
  "case_finish i expression p fallthrough_label true_block r s =
     (if expression \<noteq> None \<and> fallthrough (flow_control p s) \<and> fallthrough_label = None then
        (Crashed, true_block, r, s)
      else
        (let s = (if expression = None then s
                  else if fallthrough (flow_control p s)
                  then emit_instr true_block op_jmp [label_operand fallthrough_label] s
                  else emit_instr true_block op_jmp [label_operand (exit_label (flow_control p s))] s)
         in case make_labelled_block (label_name i @ ''_false'') s of
              (exit_block, s1) \<Rightarrow> (Success, exit_block, r, s1)))"

subsubsection \<open>Break and continue (lines 723 to 760, 1253 to 1290)\<close>

definition emit_jump_to :: "string option \<Rightarrow> (flow_control_t \<Rightarrow> string option) \<Rightarrow> string \<Rightarrow> emit_result_t
    \<Rightarrow> nat \<Rightarrow> emitter \<Rightarrow> status \<times> nat \<times> emit_result_t \<times> emitter" where
  "emit_jump_to label_opt which message r bb s =
     (case (case label_opt of
              Some n \<Rightarrow> Some n
            | None \<Rightarrow>
                (case current_flow_control s of
                   None \<Rightarrow> None
                 | Some p \<Rightarrow> which (flow_control p s))) of
        None \<Rightarrow> (Failure, bb, r, error ''P081'' message s)
      | Some n \<Rightarrow>
          (case make_block s of
             (exit_block, s1) \<Rightarrow>
               (Success, exit_block, r, emit_instr exit_block op_jmp [Named_ref ref_label n qword] s1)))"

subsubsection \<open>Return (lines 819 to 850)\<close>

definition return_tail :: "nat \<Rightarrow> emitter \<Rightarrow> emitter" where
  "return_tail return_block s =
     emit_instr return_block op_rts []
       (emit_instr return_block op_pop [FP]
          (emit_instr return_block op_move [SP, FP] s))"

subsubsection \<open>Blocks (lines 106 to 160, 2426 to 2529)\<close>

definition begin_stack_frame :: "bool \<Rightarrow> bool \<Rightarrow> nat \<Rightarrow> emitter \<Rightarrow> emitter" where
  "begin_stack_frame has_stack_frame parent_is_directive bb s =
     (if parent_is_directive then s
      else if has_stack_frame then
        emit_instr bb op_move [FP, SP] (emit_instr bb op_push [FP] s)
      else s)"

text \<open>\<^verbatim>\<open>end_stack_frame\<close> makes an exit block, and leaves \<^verbatim>\<open>*basic_block\<close> as it is.\<close>

definition end_stack_frame :: "bool \<Rightarrow> nat \<Rightarrow> emitter \<Rightarrow> emitter" where
  "end_stack_frame has_stack_frame bb s =
     (if \<not> has_stack_frame then s
      else
        (case make_block s of
           (exit_block, s1) \<Rightarrow>
             if \<not> is_current_instruction bb op_rts s1 \<and> has_stack_frame then
               emit_instr exit_block op_pop [FP] (emit_instr exit_block op_move [SP, FP] s1)
             else s1))"

text \<open>The labels of a statement: each is attached to the current block.\<close>

fun emit_labels :: "string list \<Rightarrow> nat \<Rightarrow> emitter \<Rightarrow> emitter" where
  "emit_labels [] bb s = s"
| "emit_labels (n # ns) bb s = emit_labels ns bb (add_label bb n s)"

fun is_defer_statement :: "statement \<Rightarrow> bool" where
  "is_defer_statement (Statement i ls (Some (Defer di de))) = True"
| "is_defer_statement _ = False"

fun statement_labels :: "statement \<Rightarrow> string list" where
  "statement_labels (Statement i ls e) = ls"

text \<open>
  The two entries that \<^verbatim>\<open>emit_block\<close> writes into the top flow control record before it
  emits a statement.
\<close>

definition set_neighbours :: "statement option \<Rightarrow> statement option \<Rightarrow> emitter \<Rightarrow> emitter" where
  "set_neighbours prev next s =
     (case current_flow_control s of
        None \<Rightarrow> s
      | Some p \<Rightarrow> update_flow_control p (\<lambda>c. c\<lparr>next_element := Some next, previous_element := Some prev\<rparr>) s)"

definition next_statement :: "statement list \<Rightarrow> statement option" where
  "next_statement rest = (case rest of [] \<Rightarrow> None | n # _ \<Rightarrow> Some n)"

text \<open>
  The if case up to the true block: the predicate block, the predicate, the branch and
  the true block. The outcome holds the true block.
\<close>

definition if_predicate :: "info \<Rightarrow> expr \<Rightarrow> emitter \<Rightarrow> status \<times> nat \<times> emitter" where
  "if_predicate i predicate s =
     (case make_labelled_block (label_name i @ ''_entry'') s of
        (predicate_block, s1) \<Rightarrow>
          (case emit_expr predicate predicate_block empty_result s1 of
             (st, predicate_block, predicate_result, s2) \<Rightarrow>
               if st \<noteq> Success then (st, predicate_block, s2)
               else
                 (case operands_back (result_operands predicate_result) of
                    None \<Rightarrow> (Crashed, predicate_block, s2)
                  | Some x \<Rightarrow>
                      (case make_labelled_block (label_name i @ ''_true'')
                              (emit_instr predicate_block op_bz
                                 [x, Named_ref ref_label (label_name i @ ''_false'') qword] s2) of
                         (true_block, s3) \<Rightarrow> (Success, true_block, s3)))))"

text \<open>The jump at the end of the true block, and the false block.\<close>

definition if_false_block :: "info \<Rightarrow> nat \<Rightarrow> emitter \<Rightarrow> nat \<times> emitter" where
  "if_false_block i true_block s = make_labelled_block (label_name i @ ''_false'') (if_jump i true_block s)"

subsubsection \<open>While (lines 761 to 818)\<close>

text \<open>
  The while case up to the body block: the flow control record, the predicate block, the
  predicate, the branch and the body block. The outcome holds \<^verbatim>\<open>*basic_block\<close> and the
  body block.
\<close>

definition while_predicate :: "info \<Rightarrow> expr \<Rightarrow> emitter \<Rightarrow> status \<times> nat \<times> nat \<times> emitter" where
  "while_predicate i predicate s =
     (case make_labelled_block (label_name i @ ''_entry'')
             (push_flow_control
                (new_flow_control (Some (label_name i @ ''_exit'')) (Some (label_name i @ ''_entry'')) None) s) of
        (predicate_block, s1) \<Rightarrow>
          (case emit_expr predicate predicate_block empty_result s1 of
             (st, bb1, predicate_result, s2) \<Rightarrow>
               if st \<noteq> Success then (st, bb1, bb1, pop_flow_control s2)
               else
                 (case operands_back (result_operands predicate_result) of
                    None \<Rightarrow> (Crashed, bb1, bb1, s2)
                  | Some x \<Rightarrow>
                      (case make_labelled_block (label_name i @ ''_body'')
                              (emit_instr predicate_block op_bz
                                 [x, Named_ref ref_label (label_name i @ ''_exit'') qword] s2) of
                         (body_block, s3) \<Rightarrow> (Success, body_block, body_block, s3)))))"

definition while_finish :: "info \<Rightarrow> nat \<Rightarrow> emit_result_t \<Rightarrow> emitter \<Rightarrow> status \<times> nat \<times> emit_result_t \<times> emitter" where
  "while_finish i body_block r s =
     (case make_labelled_block (label_name i @ ''_exit'')
             (emit_instr body_block op_jmp [Named_ref ref_label (label_name i @ ''_entry'') qword] s) of
        (exit_block, s1) \<Rightarrow>
          (Success, exit_block, r, pop_flow_control (emit_instr exit_block op_nop [] s1)))"

subsubsection \<open>Switch (lines 851 to 889)\<close>

definition switch_begin :: "info \<Rightarrow> expr \<Rightarrow> emitter \<Rightarrow> nat \<times> emitter" where
  "switch_begin i e s =
     make_labelled_block (label_name i @ ''_entry'')
       (push_flow_control (new_flow_control (Some (label_name i @ ''_exit'')) None (Some e)) s)"

definition switch_finish :: "info \<Rightarrow> emit_result_t \<Rightarrow> emitter \<Rightarrow> status \<times> nat \<times> emit_result_t \<times> emitter" where
  "switch_finish i r s =
     (case make_labelled_block (label_name i @ ''_exit'') s of
        (exit_block, s1) \<Rightarrow>
          (Success, exit_block, r, pop_flow_control (emit_instr exit_block op_nop [] s1)))"

text \<open>
  The statement-level cases of \<^verbatim>\<open>emit_element\<close>, with \<^verbatim>\<open>emit_block\<close>: \<open>emit_statements\<close>
  is its loop over the statements (with the statement before the current one),
  \<open>emit_deferred\<close> its loop over the defer stack. A \<^verbatim>\<open>defer\<close> of the C++ source runs at
  the end of its scope, on every path out of it, the latest first; it is written out at
  each exit.
\<close>

fun emit_element :: "element \<Rightarrow> nat \<Rightarrow> emit_result_t \<Rightarrow> emitter \<Rightarrow> status \<times> nat \<times> emit_result_t \<times> emitter"
  and emit_statement :: "statement \<Rightarrow> nat \<Rightarrow> emitter \<Rightarrow> status \<times> nat \<times> emitter"
  and emit_statements :: "statement option \<Rightarrow> statement list \<Rightarrow> nat \<Rightarrow> emitter \<Rightarrow> status \<times> nat \<times> emitter"
  and emit_deferred :: "element list \<Rightarrow> nat \<Rightarrow> emitter \<Rightarrow> status \<times> nat \<times> emitter"
where
  "emit_element (Expr e) bb r s = emit_expr e bb r s"
| "emit_element (If_e i predicate true_branch false_branch) bb r s =
     (case if_predicate i predicate s of
        (st, true_block, s1) \<Rightarrow>
          if st \<noteq> Success then (st, bb, add_operand (Named_ref ref_local [] qword) (infer i r), s1)
          else
            (case emit_element true_branch true_block empty_result s1 of
               (st, true_block, true_result, s2) \<Rightarrow>
                 if st \<noteq> Success then (st, bb, add_operand (Named_ref ref_local [] qword) (infer i r), s2)
                 else
                   (case false_branch of
                      None \<Rightarrow>
                        (case if_false_block i true_block s2 of
                           (false_block, s3) \<Rightarrow>
                             if_exit i (add_operand (Named_ref ref_local [] qword) (infer i r))
                               (emit_instr false_block op_nop [] s3))
                    | Some f \<Rightarrow>
                        (case emit_element f (fst (if_false_block i true_block s2)) empty_result
                                (snd (if_false_block i true_block s2)) of
                           (st, false_block, false_result, s4) \<Rightarrow>
                             if st \<noteq> Success then
                               (st, bb, add_operand (Named_ref ref_local [] qword) (infer i r), s4)
                             else if_exit i (add_operand (Named_ref ref_local [] qword) (infer i r)) s4))))"
| "emit_element (While_e i predicate body) bb r s =
     (case while_predicate i predicate s of
        (st, bb1, body_block, s1) \<Rightarrow>
          if st \<noteq> Success then (st, bb1, infer i r, s1)
          else
            (case emit_element body body_block (infer i r) s1 of
               (st, bb2, r1, s2) \<Rightarrow>
                 if st \<noteq> Success then (st, bb2, r1, pop_flow_control s2)
                 else while_finish i body_block r1 s2))"
| "emit_element (For_e i induction Other_intrinsic body) bb r s = (Success, bb, infer i r, s)"
| "emit_element (For_e i induction Other_expression body) bb r s = (Success, bb, infer i r, s)"
| "emit_element (For_e i induction (Range start stop step dir kind) body) bb r s =
     (case for_begin i induction start stop dir kind (infer i r) s of
        (st, bb1, r1, induction_init, comparison_op, dir_value, s1) \<Rightarrow>
          if st \<noteq> Success then (st, bb1, r1, s1)
          else
            (case emit_element body bb1 r1 s1 of
               (st, bb2, r2, s2) \<Rightarrow>
                 if st \<noteq> Success then
                   (st, bb2, r2, pop_flow_control (remove induction_init (remove comparison_op s2)))
                 else for_step i induction step dir_value induction_init comparison_op r2 s2))"
| "emit_element (Switch_e i e scope) bb r s =
     (case emit_element scope (fst (switch_begin i e s)) (infer i r) (snd (switch_begin i e s)) of
        (st, bb1, r1, s1) \<Rightarrow>
          if st \<noteq> Success then (st, bb1, r1, pop_flow_control s1)
          else switch_finish i r1 s1)"
| "emit_element (Case_e i expression scope) bb r s =
     (case current_flow_control s of
        None \<Rightarrow> (Failure, bb, infer i r, s)
      | Some p \<Rightarrow>
          (case case_predicate i expression p bb (update_flow_control p (\<lambda>c. c\<lparr>fallthrough := False\<rparr>) s) of
             (st, fallthrough_label, bb1, s1) \<Rightarrow>
               if st \<noteq> Success then (st, bb1, infer i r, s1)
               else
                 (case make_labelled_block (label_name i @ ''_true'') s1 of
                    (true_block, s2) \<Rightarrow>
                      (case emit_element scope true_block (infer i r) s2 of
                         (st, bb2, r1, s3) \<Rightarrow>
                           if st \<noteq> Success then (st, bb2, r1, s3)
                           else case_finish i expression p fallthrough_label true_block r1 s3))))"
| "emit_element (Break_e i label_opt) bb r s =
     emit_jump_to label_opt exit_label ''no valid exit label on stack.'' (infer i r) bb s"
| "emit_element (Continue_e i label_opt) bb r s =
     emit_jump_to label_opt continue_label ''no valid continue label on stack.'' (infer i r) bb s"
| "emit_element (Fallthrough i) bb r s =
     (case current_flow_control s of
        None \<Rightarrow> (Failure, bb, infer i r, error ''X000'' ''fallthrough is only valid within a case.'' s)
      | Some p \<Rightarrow> (Success, bb, infer i r, update_flow_control p (\<lambda>c. c\<lparr>fallthrough := True\<rparr>) s))"
| "emit_element (Return_e i field expressions) bb r s =
     (case make_block s of
        (return_block, s1) \<Rightarrow>
          (case field of
             None \<Rightarrow> (Success, return_block, infer i r, return_tail return_block s1)
           | Some field_label \<Rightarrow>
               (case expressions of
                  [] \<Rightarrow> (Crashed, return_block, infer i r, s1)
                | e # _ \<Rightarrow>
                    (case emit_expr e return_block empty_result s1 of
                       (st, bb1, expr_result, s2) \<Rightarrow>
                         if st \<noteq> Success then (st, bb1, infer i r, s2)
                         else
                           (case operands_back (result_operands expr_result) of
                              None \<Rightarrow> (Crashed, bb1, infer i r, s2)
                            | Some x \<Rightarrow>
                                (Success, bb1, infer i r,
                                 return_tail return_block
                                   (emit_instr return_block op_store
                                      [Named_ref ref_local field_label qword, x] s2)))))))"
| "emit_element (Defer i expression) bb r s =
     (case expression of
        None \<Rightarrow> (Success, bb, infer i r, s)
      | Some e \<Rightarrow>
          (case emit_element e bb empty_result s of
             (st, bb1, expr_result, s1) \<Rightarrow> (st, bb1, infer i r, s1)))"
| "emit_element (Label i) bb r s = (Success, bb, infer i r, add_label bb (label_name i) s)"
| "emit_element (Block i has_stack_frame parent_is_directive statements defer_stack) bb r s =
     (case emit_statements None statements bb (begin_stack_frame has_stack_frame parent_is_directive bb s) of
        (st, bb1, s1) \<Rightarrow>
          if st \<noteq> Success then (st, bb1, infer i r, s1)
          else
            (case emit_deferred defer_stack bb1 s1 of
               (st, bb2, s2) \<Rightarrow>
                 if st \<noteq> Success then (st, bb2, infer i r, s2)
                 else (Success, bb2, infer i r, end_stack_frame has_stack_frame bb2 s2)))"
| "emit_statement (Statement i ls expression) bb s =
     (case expression of
        None \<Rightarrow> (Success, bb, s)
      | Some e \<Rightarrow>
          (case emit_element e bb empty_result s of
             (st, bb1, expr_result, s1) \<Rightarrow> (st, bb1, s1)))"
| "emit_statements prev [] bb s = (Success, bb, s)"
| "emit_statements prev (stmt # rest) bb s =
     (if is_defer_statement stmt then
        emit_statements (Some stmt) rest bb (emit_labels (statement_labels stmt) bb s)
      else
        (case emit_statement stmt bb
                (set_neighbours prev (next_statement rest) (emit_labels (statement_labels stmt) bb s)) of
           (st, bb1, s1) \<Rightarrow>
             if st \<noteq> Success then (st, bb1, s1)
             else emit_statements (Some stmt) rest bb1 s1))"
| "emit_deferred [] bb s = (Success, bb, s)"
| "emit_deferred (deferred # rest) bb s =
     (case emit_element deferred bb empty_result s of
        (st, bb1, defer_result, s1) \<Rightarrow>
          if st \<noteq> Success then (st, bb1, s1)
          else emit_deferred rest bb1 s1)"

subsection \<open>Relations between emitter states, and examples\<close>

definition block_le :: "basic_block \<Rightarrow> basic_block \<Rightarrow> bool" where
  "block_le b b' =
     (prefix (labels b) (labels b') \<and> prefix (instructions b) (instructions b') \<and> locals b' = locals b)"

definition grows :: "nat \<Rightarrow> emitter \<Rightarrow> emitter \<Rightarrow> bool" where
  "grows bb s s' =
     (length (blocks s) \<le> length (blocks s') \<and>
      (\<forall>j<length (blocks s).
         if j = bb then block_le (blocks s ! j) (blocks s' ! j) else blocks s' ! j = blocks s ! j))"

definition advances :: "nat \<Rightarrow> emitter \<Rightarrow> nat \<Rightarrow> emitter \<Rightarrow> bool" where
  "advances bb s bb' s' =
     (grows bb s s' \<and> (bb' = bb \<or> (length (blocks s) \<le> bb' \<and> bb' < length (blocks s'))))"

text \<open>
  An emitter with one empty block and three elements in its map, and the elements the
  examples are made of.
\<close>

definition example_state :: emitter where
  "example_state =
     \<lparr>blocks = [empty_block], control_flow_stack = [], elements = {1, 2, 3}, next_id = 100,
      allocated_size = (\<lambda>_. 0), messages = [], ffi_functions = (\<lambda>_. None),
      call_site_arguments = []\<rparr>"

definition example_info :: "nat \<Rightarrow> string \<Rightarrow> type option \<Rightarrow> info" where
  "example_info n l t = \<lparr>element_id = n, label_name = l, inferred_type = t\<rparr>"

definition example_identifier :: "string \<Rightarrow> type \<Rightarrow> expr" where
  "example_identifier n t = Identifier (example_info 1 n (Some t))"

definition example_literal :: "nat \<Rightarrow> expr" where
  "example_literal v = Integer_literal (example_info 2 ''lit'' (Some (Numeric u8))) v"

text \<open>The loop \<^verbatim>\<open>while true {}\<close>.\<close>

definition example_while :: element where
  "example_while =
     While_e (example_info 3 ''while'' None)
       (Boolean_literal (example_info 2 ''true'' (Some bool_type_object)) True)
       (Block (example_info 1 ''block'' None) False False [] [])"

text \<open>
  A reference to an identifier of a composite type of 12 bytes, and a call of \<^verbatim>\<open>f\<close> with the
  arguments \<^verbatim>\<open>(p, 1)\<close>, foreign or not; the foreign function is known and not variadic.
\<close>

definition example_point :: expr where
  "example_point =
     Identifier_reference (example_info 4 ''p'' (Some (Composite ''point'' 12)))
       (Some (example_identifier ''p'' (Composite ''point'' 12)))"

definition example_call :: "bool \<Rightarrow> expr" where
  "example_call foreign =
     Proc_call (example_info 3 ''call'' (Some (Numeric u8))) ''f''
       \<lparr>is_foreign = foreign, return_type = (if foreign then None else Some (Numeric u8)),
        foreign_address = 7\<rparr>
       (Some (Argument_list (example_info 5 ''args'' None) foreign True [example_point, example_literal 1]))"

definition example_ffi_state :: emitter where
  "example_ffi_state = example_state\<lparr>ffi_functions := (\<lambda>_. Some False)\<rparr>"

text \<open>The statement \<^verbatim>\<open>if a > 0 {}\<close> with an unsigned \<^verbatim>\<open>a\<close>.\<close>

definition example_if :: element where
  "example_if =
     If_e (example_info 3 ''if'' None)
       (Binary_operator (example_info 4 ''gt'' (Some bool_type_object)) True greater_than
          (example_identifier ''a'' (Numeric u8)) (example_literal 0))
       (Block (example_info 1 ''block'' None) False False [] [])
       None"

section \<open>Part II: properties\<close>

subsection \<open>Flag arithmetic\<close>

lemma or_and_disjoint: "f AND g = 0 \<Longrightarrow> (x OR f) AND g = x AND (g::8 word)"
  by (simp add: bit.conj_disj_distrib2)

lemma and_not_and_disjoint:
  assumes "f AND g = 0"
  shows "(x AND NOT f) AND g = x AND (g::8 word)"
proof (rule bit_eqI)
  fix n
  have "bit (f AND g) n = False"
    using assms by simp
  then have "\<not> (bit f n \<and> bit g n)"
    by (simp add: bit_and_iff)
  then show "bit ((x AND NOT f) AND g) n = bit (x AND g) n"
    by (auto simp add: bit_and_iff bit_not_iff dest: bit_imp_le_length)
qed

lemma or_and_same: "(x OR f) AND f = (f::8 word)"
  by (simp add: bit.conj_disj_distrib2)

lemma and_not_and_same: "(x AND NOT f) AND f = (0::8 word)"
  by (simp add: and.assoc)

lemma flag_set_same: "flag (set_flag f b v) f = (b \<and> f \<noteq> 0)"
  by (simp add: flag_def set_flag_def or_and_same and_not_and_same)

lemma flag_set_other: "f AND g = 0 \<Longrightarrow> flag (set_flag f b v) g = flag v g"
  by (simp add: flag_def set_flag_def or_and_disjoint and_not_and_disjoint)

subsection \<open>Variable flags\<close>

lemma address_flags:
  assumes "flags_ok c" and "address c v blk = (r, v', blk')"
  shows "flag v' (f_read c) = flag v (f_read c)" and "flag v' (f_written c) = flag v (f_written c)"
  using assms
  by (auto simp add: address_def flags_ok_def flag_set_other Let_def split: if_splits option.splits)

lemma address_block:
  "address c v (Some b) = (r, v', blk') \<Longrightarrow> \<exists>b'. blk' = Some b'"
  by (auto simp add: address_def Let_def split: if_splits option.splits)

lemma address_block_none:
  "address c v None = (r, v', blk') \<Longrightarrow> blk' = None \<and> v' = v"
  by (auto simp add: address_def Let_def split: if_splits option.splits)

lemma read_effect:
  assumes "flags_ok c" and "\<not> flag v (f_read c)"
  shows "\<exists>v' b'. read c v (Some b) = Some (True, v', Some b') \<and> flag v' (f_read c) \<and> \<not> flag v' (f_written c)"
proof -
  obtain r v1 blk1 where a: "address c v (Some b) = (r, v1, blk1)"
    by (cases "address c v (Some b)") auto
  then obtain b1 where b1: "blk1 = Some b1"
    using address_block by blast
  have rw: "f_read c AND f_written c = 0" "f_written c AND f_read c = 0" "f_read c \<noteq> 0"
    using assms(1) by (auto simp add: flags_ok_def and.commute)
  show ?thesis
    using assms(2) a b1 rw
    by (simp add: read_def flag_set_same flag_set_other)
qed

lemma read_no_block:
  "\<not> flag v (f_read c) \<Longrightarrow> read c v None = Some (True, v, None)"
  by (simp add: read_def)

lemma read_already: "flag v (f_read c) \<Longrightarrow> read c v blk = Some (False, v, blk)"
  by (simp add: read_def)

lemma write_already: "flag v (f_written c) \<Longrightarrow> write_variable c v blk = Some (False, v, blk)"
  by (simp add: write_variable_def)

lemma write_effect:
  assumes "flags_ok c" and "\<not> flag v (f_written c)" and "write_variable c v blk = Some (r, v', blk')"
  shows "r \<and> flag v' (f_written c) \<and> \<not> flag v' (f_read c) \<and> blk \<noteq> None"
proof -
  have rw: "f_read c AND f_written c = 0" "f_written c AND f_read c = 0" "f_written c \<noteq> 0"
    using assms(1) by (auto simp add: flags_ok_def and.commute)
  show ?thesis
    using assms(2,3) rw
    by (cases blk)
      (auto simp add: write_variable_def flag_set_same flag_set_other
        dest: address_block_none split: prod.splits option.splits if_splits)
qed

lemma address_variable:
  "address c v blk = (r, v', blk') \<Longrightarrow>
     has_parent v' = has_parent v \<and> element_is_identifier v' = element_is_identifier v"
  by (auto simp add: address_def set_flag_def Let_def split: if_splits option.splits)

lemma write_total:
  assumes "flags_ok c" and "\<not> flag v (f_written c)"
    and "has_parent v \<or> element_is_identifier v"
  shows "\<exists>w b'. write_variable c v (Some b) = Some (True, w, Some b')
           \<and> flag w (f_written c) \<and> \<not> flag w (f_read c)"
proof -
  obtain r v1 blk1 where a: "address c v (Some b) = (r, v1, blk1)"
    by (cases "address c v (Some b)") auto
  then obtain b1 where b1: "blk1 = Some b1"
    using address_block by blast
  have v1: "has_parent v1 \<or> element_is_identifier v1"
    using address_variable [OF a] assms(3) by simp
  have rw: "f_read c AND f_written c = 0" "f_written c AND f_read c = 0" "f_written c \<noteq> 0"
    using assms(1) by (auto simp add: flags_ok_def and.commute)
  show ?thesis
  proof (cases "has_parent v1")
    case True
    then show ?thesis
      using assms(2) a b1 rw
      by (simp add: write_variable_def walk_to_root_and_calculate_offset_def flag_set_same
          flag_set_other)
  next
    case False
    then show ?thesis
      using assms(2) a b1 rw v1
      by (simp add: write_variable_def walk_to_root_and_calculate_offset_def flag_set_same
          flag_set_other)
  qed
qed

lemma write_no_block:
  "\<not> flag v (f_written c) \<Longrightarrow> write_variable c v None = None"
  by (simp add: write_variable_def address_def)

lemma write_no_identifier:
  assumes "\<not> flag v (f_written c)" and "\<not> has_parent v" and "\<not> element_is_identifier v"
  shows "write_variable c v blk = None"
proof -
  obtain r v1 blk1 where a: "address c v blk = (r, v1, blk1)"
    by (cases "address c v blk") auto
  show ?thesis
    using assms a address_variable [OF a]
    by (simp add: write_variable_def walk_to_root_and_calculate_offset_def split: option.splits)
qed

lemma read_total: "\<exists>x. read c v blk = Some x"
proof (cases blk)
  case None
  then show ?thesis by (auto simp add: read_def)
next
  case (Some b)
  obtain r v1 blk1 where a: "address c v (Some b) = (r, v1, blk1)"
    by (cases "address c v (Some b)") auto
  then obtain b1 where b1: "blk1 = Some b1"
    using address_block by blast
  show ?thesis using Some a b1 by (auto simp add: read_def)
qed

lemma call_not_both:
  assumes "flags_ok c" and "\<not> both_set c v" and "call c k v blk = Some (r, v', blk')"
  shows "\<not> both_set c v'"
proof (cases k)
  case Read
  show ?thesis
  proof (cases "flag v (f_read c)")
    case True
    then show ?thesis using assms Read by (simp add: read_already)
  next
    case False
    show ?thesis
    proof (cases blk)
      case None
      then show ?thesis using assms Read False by (simp add: read_no_block)
    next
      case (Some b)
      then show ?thesis using read_effect [OF assms(1) False, of b] assms(3) Read
        by (auto simp add: both_set_def)
    qed
  qed
next
  case Write
  show ?thesis
  proof (cases "flag v (f_written c)")
    case True
    then show ?thesis using assms Write by (simp add: write_already)
  next
    case False
    then show ?thesis using write_effect [OF assms(1) False] assms(3) Write
      by (auto simp add: both_set_def)
  qed
qed

lemma calls_not_both:
  "flags_ok c \<Longrightarrow> \<not> both_set c v \<Longrightarrow> calls c ks v = Some v' \<Longrightarrow> \<not> both_set c v'"
proof (induction ks arbitrary: v)
  case Nil
  then show ?case by simp
next
  case (Cons a ks)
  obtain k blk where a: "a = (k, blk)" by (cases a)
  from Cons.prems(3) a obtain r v1 blk1 where c1: "call c k v blk = Some (r, v1, blk1)"
    and rest: "calls c ks v1 = Some v'"
    by (auto split: option.splits)
  have "\<not> both_set c v1"
    using call_not_both [OF Cons.prems(1,2) c1] .
  then show ?case using Cons.IH [OF Cons.prems(1) _ rest] by simp
qed

text \<open>
  Claim C10, as the code has it. With flag masks that are bits of their own: after any
  sequence of \<^verbatim>\<open>read()\<close> and no-argument \<^verbatim>\<open>write()\<close> calls that started with the two
  flags not both set and in which every call returned, f_read and f_written are not both
  set. \<^verbatim>\<open>read()\<close> on a variable whose f_read is clear returns true; with a current block it
  sets f_read and clears f_written, with no current block it leaves the variable as it is.
  The no-argument \<^verbatim>\<open>write()\<close> on a variable whose f_written is clear does return, with true,
  f_written set and f_read clear, when the assembler has a current block and the variable
  has a parent or its element is an identifier; with no current block, or with neither a
  parent nor an identifier element, it dereferences a null pointer. Each returns false
  and leaves the variable and the block as they are when its own flag is already set.
\<close>

theorem variable_flags:
  assumes "flags_ok c"
  shows "(\<not> both_set c v \<and> calls c ks v = Some v' \<longrightarrow> \<not> both_set c v')
    \<and> (\<not> flag v (f_read c) \<longrightarrow>
          (\<exists>w b'. read c v (Some b) = Some (True, w, Some b') \<and> flag w (f_read c) \<and> \<not> flag w (f_written c))
          \<and> read c v None = Some (True, v, None))
    \<and> (\<not> flag v (f_written c) \<and> (has_parent v \<or> element_is_identifier v) \<longrightarrow>
          (\<exists>w b'. write_variable c v (Some b) = Some (True, w, Some b')
             \<and> flag w (f_written c) \<and> \<not> flag w (f_read c)))
    \<and> (\<not> flag v (f_written c) \<longrightarrow> write_variable c v None = None)
    \<and> (\<not> flag v (f_written c) \<and> \<not> has_parent v \<and> \<not> element_is_identifier v \<longrightarrow>
          write_variable c v blk = None)
    \<and> (flag v (f_read c) \<longrightarrow> read c v blk = Some (False, v, blk))
    \<and> (flag v (f_written c) \<longrightarrow> write_variable c v blk = Some (False, v, blk))"
proof (intro conjI impI)
  assume "\<not> both_set c v \<and> calls c ks v = Some v'"
  then show "\<not> both_set c v'"
    using calls_not_both [OF assms] by blast
next
  assume "\<not> flag v (f_read c)"
  then show "\<exists>w b'. read c v (Some b) = Some (True, w, Some b') \<and> flag w (f_read c) \<and> \<not> flag w (f_written c)"
    by (rule read_effect [OF assms])
next
  assume "\<not> flag v (f_read c)"
  then show "read c v None = Some (True, v, None)"
    by (rule read_no_block)
next
  assume "\<not> flag v (f_written c) \<and> (has_parent v \<or> element_is_identifier v)"
  then show "\<exists>w b'. write_variable c v (Some b) = Some (True, w, Some b')
             \<and> flag w (f_written c) \<and> \<not> flag w (f_read c)"
    using write_total [OF assms] by blast
next
  assume "\<not> flag v (f_written c)"
  then show "write_variable c v None = None"
    by (rule write_no_block)
next
  assume "\<not> flag v (f_written c) \<and> \<not> has_parent v \<and> \<not> element_is_identifier v"
  then show "write_variable c v blk = None"
    using write_no_identifier by blast
next
  assume "flag v (f_read c)"
  then show "read c v blk = Some (False, v, blk)"
    by (rule read_already)
next
  assume "flag v (f_written c)"
  then show "write_variable c v blk = Some (False, v, blk)"
    by (rule write_already)
qed

lemma flags_ok_bit_flags: "flags_ok bit_flags"
  by (simp add: flags_ok_def bit_flags_def)

lemmas variable_eval =
  read_def write_variable_def address_def flag_def set_flag_def example_variable_def
  example_field_def bit_flags_def walk_to_root_and_calculate_offset_def both_set_def Let_def

theorem variable_flags_witness:
  "flags_ok bit_flags
   \<and> \<not> both_set bit_flags example_variable
   \<and> calls bit_flags [(Read, Some []), (Write, Some []), (Read, None), (Read, Some [])] example_variable
       = Some (example_variable\<lparr>flags := 17\<rparr>)
   \<and> \<not> both_set bit_flags (example_variable\<lparr>flags := 17\<rparr>)
   \<and> \<not> flag example_variable (f_read bit_flags)
   \<and> read bit_flags example_variable None = Some (True, example_variable, None)
   \<and> \<not> flag example_variable (f_written bit_flags)
   \<and> element_is_identifier example_variable
   \<and> (\<exists>w b'. write_variable bit_flags example_variable (Some []) = Some (True, w, Some b')
         \<and> flag w (f_written bit_flags) \<and> \<not> flag w (f_read bit_flags))
   \<and> \<not> flag example_field (f_written bit_flags)
   \<and> has_parent example_field
   \<and> (\<exists>w b'. write_variable bit_flags example_field (Some []) = Some (True, w, Some b')
         \<and> flag w (f_written bit_flags) \<and> \<not> flag w (f_read bit_flags))
   \<and> write_variable bit_flags example_field (Some [])
       = Some (True, example_field\<lparr>flags := 20\<rparr>,
           Some [Comment ''load global address: r'', Move_label_to_reg ''r'',
                 Comment ''store field value: p.y'', Store_from_reg 12])
   \<and> write_variable bit_flags example_variable None = None
   \<and> \<not> has_parent (example_field\<lparr>has_parent := False\<rparr>)
   \<and> \<not> element_is_identifier (example_field\<lparr>has_parent := False\<rparr>)
   \<and> write_variable bit_flags (example_field\<lparr>has_parent := False\<rparr>) (Some []) = None
   \<and> flag (example_variable\<lparr>flags := 20\<rparr>) (f_written bit_flags)
   \<and> flag (example_variable\<lparr>flags := 17\<rparr>) (f_read bit_flags)
   \<and> read bit_flags (example_variable\<lparr>flags := 17\<rparr>) (Some [])
       = Some (False, example_variable\<lparr>flags := 17\<rparr>, Some [])
   \<and> write_variable bit_flags (example_variable\<lparr>flags := 20\<rparr>) (Some [])
       = Some (False, example_variable\<lparr>flags := 20\<rparr>, Some [])"
proof -
  have ok: "flags_ok bit_flags"
    by (rule flags_ok_bit_flags)
  have nb: "\<not> both_set bit_flags example_variable"
    by (simp add: variable_eval)
  have run: "calls bit_flags [(Read, Some []), (Write, Some []), (Read, None), (Read, Some [])] example_variable
       = Some (example_variable\<lparr>flags := 17\<rparr>)"
    by (simp add: variable_eval)
  have nr: "\<not> flag example_variable (f_read bit_flags)"
    by (simp add: variable_eval)
  have nw: "\<not> flag example_variable (f_written bit_flags)"
    by (simp add: variable_eval)
  have ei: "element_is_identifier example_variable"
    by (simp add: variable_eval)
  have nwf: "\<not> flag example_field (f_written bit_flags)"
    by (simp add: variable_eval)
  have hp: "has_parent example_field"
    by (simp add: variable_eval)
  have wf: "write_variable bit_flags example_field (Some [])
       = Some (True, example_field\<lparr>flags := 20\<rparr>,
           Some [Comment ''load global address: r'', Move_label_to_reg ''r'',
                 Comment ''store field value: p.y'', Store_from_reg 12])"
    by (simp add: variable_eval)
  have nwo: "\<not> flag (example_field\<lparr>has_parent := False\<rparr>) (f_written bit_flags)"
    by (simp add: variable_eval)
  have np: "\<not> has_parent (example_field\<lparr>has_parent := False\<rparr>)"
    by simp
  have ni: "\<not> element_is_identifier (example_field\<lparr>has_parent := False\<rparr>)"
    by (simp add: variable_eval)
  have r17: "flag (example_variable\<lparr>flags := 17\<rparr>) (f_read bit_flags)"
    by (simp add: variable_eval)
  have w20: "flag (example_variable\<lparr>flags := 20\<rparr>) (f_written bit_flags)"
    by (simp add: variable_eval)
  note t1 = variable_flags [OF ok, of example_variable
        "[(Read, Some []), (Write, Some []), (Read, None), (Read, Some [])]"
        "example_variable\<lparr>flags := 17\<rparr>" "[]" "Some []"]
  note t2 = variable_flags [OF ok, of "example_variable\<lparr>flags := 17\<rparr>" "[]"
        example_variable "[]" "Some []"]
  note t3 = variable_flags [OF ok, of "example_variable\<lparr>flags := 20\<rparr>" "[]"
        example_variable "[]" "Some []"]
  note t4 = variable_flags [OF ok, of example_field "[]" example_field "[]" "Some []"]
  note t5 = variable_flags [OF ok, of "example_field\<lparr>has_parent := False\<rparr>" "[]"
        example_field "[]" "Some []"]
  have a: "\<not> both_set bit_flags (example_variable\<lparr>flags := 17\<rparr>)"
    using t1 nb run by blast
  have b: "read bit_flags example_variable None = Some (True, example_variable, None)"
    using t1 nr by blast
  have c: "\<exists>w b'. write_variable bit_flags example_variable (Some []) = Some (True, w, Some b')
         \<and> flag w (f_written bit_flags) \<and> \<not> flag w (f_read bit_flags)"
    using t1 nw ei by blast
  have cf: "\<exists>w b'. write_variable bit_flags example_field (Some []) = Some (True, w, Some b')
         \<and> flag w (f_written bit_flags) \<and> \<not> flag w (f_read bit_flags)"
    using t4 nwf hp by blast
  have cn: "write_variable bit_flags example_variable None = None"
    using t1 nw by blast
  have co: "write_variable bit_flags (example_field\<lparr>has_parent := False\<rparr>) (Some []) = None"
    using t5 nwo np ni by blast
  have d: "read bit_flags (example_variable\<lparr>flags := 17\<rparr>) (Some [])
       = Some (False, example_variable\<lparr>flags := 17\<rparr>, Some [])"
    using t2 r17 by blast
  have e: "write_variable bit_flags (example_variable\<lparr>flags := 20\<rparr>) (Some [])
       = Some (False, example_variable\<lparr>flags := 20\<rparr>, Some [])"
    using t3 w20 by blast
  show ?thesis
    using ok nb run a nr b nw ei c nwf hp cf wf cn np ni co w20 r17 d e by blast
qed

text \<open>
  Claim C10 says that \<^verbatim>\<open>read()\<close> sets f_read. With no current block it returns true and
  the flag stays clear.
\<close>

theorem read_without_block_sets_no_flag:
  "read bit_flags example_variable None = Some (True, example_variable, None)
   \<and> \<not> flag example_variable (f_read bit_flags)"
  by (simp add: variable_eval)

subsection \<open>Pointer type check\<close>

text \<open>
  Claim C8 says that a plain \<^verbatim>\<open>u64\<close> is never accepted by a pointer's implicit type
  check. \<^verbatim>\<open>pointer_type::on_type_check\<close> accepts it.
\<close>

theorem pointer_accepts_u64:
  "type_check base_on_type_check (Pointer (Numeric u8) False) (Some (Numeric u64))"
  by simp

text \<open>
  Claim C8, as the code has it: a pointer type accepts another pointer when the other
  pointer's base type is void or when this pointer's base type checks the other's base
  type; it accepts a numeric type exactly when that type is eight bytes wide (u64, s64
  and f64); it rejects null and every other type.
\<close>

theorem pointer_type_check:
  "type_check tc (Pointer base v) None = False
   \<and> type_check tc (Pointer base v) (Some (Pointer other_base other_void))
       = (other_void \<or> type_check tc base (Some other_base))
   \<and> type_check tc (Pointer base v) (Some (Numeric n)) = (n \<in> {u64, s64, f64})
   \<and> type_check tc (Pointer base v) (Some (Composite name sz)) = False
   \<and> type_check tc (Pointer base v) (Some (Tuple i sz)) = False
   \<and> type_check tc (Pointer base v) (Some (Other tag name sz cl cm)) = False"
  by (cases n) simp_all

subsection \<open>The emitter\<close>

lemma block_le_refl [simp]: "block_le b b"
  by (simp add: block_le_def)

lemma block_le_trans: "block_le a b \<Longrightarrow> block_le b c \<Longrightarrow> block_le a c"
  by (auto simp add: block_le_def)

lemma grows_refl [simp]: "grows bb s s"
  by (simp add: grows_def)

lemma advances_refl [simp]: "advances bb s bb s"
  by (simp add: advances_def)

lemma grows_trans:
  assumes "grows bb s s1" and "grows bb1 s1 s2" and "bb1 = bb \<or> length (blocks s) \<le> bb1"
  shows "grows bb s s2"
  unfolding grows_def
proof (intro conjI allI impI)
  show "length (blocks s) \<le> length (blocks s2)"
    using assms(1,2) by (simp add: grows_def)
next
  fix j assume j: "j < length (blocks s)"
  then have j1: "j < length (blocks s1)"
    using assms(1) by (simp add: grows_def)
  show "if j = bb then block_le (blocks s ! j) (blocks s2 ! j) else blocks s2 ! j = blocks s ! j"
  proof (cases "j = bb")
    case True
    then have a: "block_le (blocks s ! j) (blocks s1 ! j)"
      using assms(1) j by (simp add: grows_def)
    have b: "block_le (blocks s1 ! j) (blocks s2 ! j)"
      using assms(2) j1 by (cases "j = bb1") (auto simp add: grows_def)
    show ?thesis using True block_le_trans [OF a b] by simp
  next
    case False
    then have a: "blocks s1 ! j = blocks s ! j"
      using assms(1) j by (simp add: grows_def)
    have "j \<noteq> bb1" using assms(3) False j by auto
    then have "blocks s2 ! j = blocks s1 ! j"
      using assms(2) j1 by (simp add: grows_def)
    then show ?thesis using False a by simp
  qed
qed

lemma advances_trans:
  assumes "advances bb s bb1 s1" and "advances bb1 s1 bb2 s2"
  shows "advances bb s bb2 s2"
proof -
  have l: "length (blocks s) \<le> length (blocks s1)" "length (blocks s1) \<le> length (blocks s2)"
    using assms by (simp_all add: advances_def grows_def)
  have "grows bb s s2"
    using assms by (intro grows_trans [of bb s s1 bb1 s2]) (auto simp add: advances_def)
  then show ?thesis
    using assms l by (auto simp add: advances_def)
qed

lemma grows_same_blocks: "blocks s2 = blocks s1 \<Longrightarrow> grows bb s s1 \<Longrightarrow> grows bb s s2"
  by (simp add: grows_def)

lemma advances_same_blocks: "blocks s2 = blocks s1 \<Longrightarrow> advances bb s bb1 s1 \<Longrightarrow> advances bb s bb1 s2"
  by (simp add: advances_def grows_def)

lemma grows_emit_instr_self: "grows b s (emit_instr b c ops s)"
  by (auto simp add: grows_def emit_instr_def block_le_def)

lemma grows_add_label_self: "grows b s (add_label b n s)"
  by (auto simp add: grows_def add_label_def block_le_def)

lemma length_emit_instr [simp]: "length (blocks (emit_instr b c ops s)) = length (blocks s)"
  by (simp add: emit_instr_def)

lemma length_add_label [simp]: "length (blocks (add_label b n s)) = length (blocks s)"
  by (simp add: add_label_def)

lemma advances_emit_instr:
  assumes "advances bb s bb1 s1" and "b = bb \<or> length (blocks s) \<le> b"
  shows "advances bb s bb1 (emit_instr b c ops s1)"
proof -
  have "grows bb s (emit_instr b c ops s1)"
    using assms grows_trans [of bb s s1 b "emit_instr b c ops s1"] grows_emit_instr_self
    by (auto simp add: advances_def)
  then show ?thesis using assms by (auto simp add: advances_def)
qed

lemma advances_add_label:
  assumes "advances bb s bb1 s1" and "b = bb \<or> length (blocks s) \<le> b"
  shows "advances bb s bb1 (add_label b n s1)"
proof -
  have "grows bb s (add_label b n s1)"
    using assms grows_trans [of bb s s1 b "add_label b n s1"] grows_add_label_self
    by (auto simp add: advances_def)
  then show ?thesis using assms by (auto simp add: advances_def)
qed

lemma advances_current: "advances bb s bb1 s1 \<Longrightarrow> bb1 = bb \<or> length (blocks s) \<le> bb1"
  by (auto simp add: advances_def)

lemma advances_make_block:
  assumes "advances bb s bb1 s1" and "make_block s1 = (b, s2)"
  shows "advances bb s b s2" and "advances bb s bb1 s2" and "length (blocks s) \<le> b"
    and "b = length (blocks s1)" and "length (blocks s2) = Suc b"
  using assms
  by (auto simp add: advances_def grows_def make_block_def nth_append split: if_splits)

lemma advances_make_labelled_block:
  assumes "advances bb s bb1 s1" and "make_labelled_block n s1 = (b, s2)"
  shows "advances bb s b s2" and "advances bb s bb1 s2" and "length (blocks s) \<le> b"
    and "b = length (blocks s1)" and "length (blocks s2) = Suc b"
proof -
  obtain s3 where m: "make_block s1 = (b, s3)" and s2: "s2 = add_label b n s3"
    using assms(2) by (auto simp add: make_labelled_block_def split: prod.splits)
  note a = advances_make_block [OF assms(1) m]
  show "advances bb s b s2" using a s2 by (simp add: advances_add_label)
  show "advances bb s bb1 s2" using a s2 by (simp add: advances_add_label)
  show "length (blocks s) \<le> b" using a by simp
  show "b = length (blocks s1)" using a by simp
  show "length (blocks s2) = Suc b" using a s2 by simp
qed

lemma advances_retarget:
  "advances bb s bb1 s1 \<Longrightarrow> b = bb \<or> (length (blocks s) \<le> b \<and> b < length (blocks s1)) \<Longrightarrow> advances bb s b s1"
  by (auto simp add: advances_def)

lemma advances_updates [simp]:
  "advances bb s bb1 (s1\<lparr>allocated_size := a\<rparr>) = advances bb s bb1 s1"
  "advances bb s bb1 (s1\<lparr>control_flow_stack := cs\<rparr>) = advances bb s bb1 s1"
  "advances bb s bb1 (s1\<lparr>elements := es\<rparr>) = advances bb s bb1 s1"
  "advances bb s bb1 (s1\<lparr>next_id := n\<rparr>) = advances bb s bb1 s1"
  "advances bb s bb1 (s1\<lparr>messages := ms\<rparr>) = advances bb s bb1 s1"
  "advances bb s bb1 (s1\<lparr>call_site_arguments := ca\<rparr>) = advances bb s bb1 s1"
  by (simp_all add: advances_def grows_def)

lemma emit_instrs_advances:
  "advances bb s bb1 s1 \<Longrightarrow> b = bb \<or> length (blocks s) \<le> b \<Longrightarrow> advances bb s bb1 (emit_instrs b xs s1)"
  by (induction xs arbitrary: s1) (auto simp add: advances_emit_instr)

lemma error_advances: "advances bb s bb1 s1 \<Longrightarrow> advances bb s bb1 (error c m s1)"
  by (rule advances_same_blocks [rotated]) (simp_all add: error_def)

lemma emit_cast_advances:
  assumes "advances bb0 s0 bb s" and "emit_cast target bb0 bb er r s = (st, bb', r', s')"
  shows "advances bb0 s0 bb' s'"
  using assms
  by (auto simp add: emit_cast_def Let_def error_advances advances_emit_instr
      split: option.splits if_splits)

lemma emit_transmute_advances:
  assumes "advances bb0 s0 bb s" and "emit_transmute target bb0 bb er r s = (st, bb', r', s')"
  shows "advances bb0 s0 bb' s'"
  using assms
  by (auto simp add: emit_transmute_def Let_def error_advances advances_emit_instr
      split: option.splits if_splits)

lemma arithmetic_finish_advances:
  assumes "advances bb0 s0 bb s" and "arithmetic_finish t bb lr rr r s = (st, bb', r', s')"
  shows "advances bb0 s0 bb' s'"
  using assms advances_current [OF assms(1)]
  by (auto simp add: arithmetic_finish_def Let_def advances_emit_instr
      split: option.splits if_splits)

lemma assignment_finish_advances:
  assumes "advances bb0 s0 bb s" and "assignment_finish bb0 bb lr rr r s = (st, bb', r', s')"
  shows "advances bb0 s0 bb' s'"
  using assms
  by (auto simp add: assignment_finish_def Let_def error_advances advances_emit_instr
      split: option.splits if_splits)

lemma logical_body_advances:
  assumes "advances bb0 s0 bb s" and "logical_body name t bb x y s = (bb1, s1)"
  shows "advances bb0 s0 bb1 s1"
proof -
  note c = advances_current [OF assms(1)]
  define sa where "sa = emit_instr bb (if t = logical_or then op_bnz else op_bz)
                [Named_ref ref_local [] byte, Named_ref ref_label (name @ ''_exit'') qword]
                (emit_instr bb op_move [Named_ref ref_local [] byte, x]
                   (add_label bb (name @ ''_lhs_eval'') s))"
  have sa: "advances bb0 s0 bb sa"
    unfolding sa_def
    by (intro advances_emit_instr advances_add_label assms(1) c)
  obtain b s2 where m: "make_labelled_block (name @ ''_rhs_eval'') sa = (b, s2)"
    by (cases "make_labelled_block (name @ ''_rhs_eval'') sa")
  note mk = advances_make_labelled_block [OF sa m]
  have "logical_body name t bb x y s = (b, emit_instr b op_move [Named_ref ref_local [] byte, y] s2)"
    unfolding logical_body_def sa_def [symmetric] using m by simp
  then have e: "bb1 = b" "s1 = emit_instr b op_move [Named_ref ref_local [] byte, y] s2"
    using assms(2) by simp_all
  show ?thesis
    unfolding e using mk(1) mk(3) by (intro advances_emit_instr) simp_all
qed

lemma comparison_body_advances:
  assumes "advances bb0 s0 bb s" and "comparison_body t sg bb x y s = (bb1, s1)"
  shows "advances bb0 s0 bb1 s1"
proof -
  note c = advances_current [OF assms(1)]
  have a: "advances bb0 s0 bb (emit_instr bb op_cmp [x, y] s)"
    by (intro advances_emit_instr assms(1) c)
  show ?thesis
  proof (cases "relational_op t sg")
    case None
    then show ?thesis using assms(2) a by (auto simp add: comparison_body_def)
  next
    case (Some cc)
    have "advances bb0 s0 bb (emit_instr bb cc [Named_ref ref_local [] byte] (emit_instr bb op_cmp [x, y] s))"
      by (intro advances_emit_instr a c)
    then show ?thesis using assms(2) Some by (auto simp add: comparison_body_def)
  qed
qed

lemma relational_finish_advances:
  assumes "advances bb0 s0 bb s" and "relational_finish name t bb lr rr r s = (st, bb', r', s')"
  shows "advances bb0 s0 bb' s'"
proof (cases "type_result lr")
  case None
  then show ?thesis using assms by (simp add: relational_finish_def)
next
  case (Some lt)
  show ?thesis
  proof (cases "operands_back (result_operands lr)")
    case None
    then show ?thesis using assms Some by (simp add: relational_finish_def)
  next
    case x: (Some x)
    show ?thesis
    proof (cases "operands_back (result_operands rr)")
      case None
      then show ?thesis using assms Some x by (simp add: relational_finish_def)
    next
      case y: (Some y)
      define mid where "mid = (if is_logical_conjunction_operator t then logical_body name t bb x y s
                      else comparison_body t (is_signed lt) bb x y s)"
      obtain bb1 s1 where mid: "mid = (bb1, s1)" by (cases mid)
      have a1: "advances bb0 s0 bb1 s1"
      proof (cases "is_logical_conjunction_operator t")
        case True
        then have "logical_body name t bb x y s = (bb1, s1)" using mid by (simp add: mid_def)
        then show ?thesis by (rule logical_body_advances [OF assms(1)])
      next
        case False
        then have "comparison_body t (is_signed lt) bb x y s = (bb1, s1)" using mid by (simp add: mid_def)
        then show ?thesis by (rule comparison_body_advances [OF assms(1)])
      qed
      obtain e s2 where m: "make_labelled_block (name @ ''_exit'') s1 = (e, s2)"
        by (cases "make_labelled_block (name @ ''_exit'') s1")
      note mk = advances_make_labelled_block [OF a1 m]
      have "relational_finish name t bb lr rr r s = (Success, e, r, emit_instr e op_nop [] s2)"
        using Some x y mid m by (auto simp add: relational_finish_def mid_def)
      then have e: "bb' = e" "s' = emit_instr e op_nop [] s2"
        using assms(2) by simp_all
      show ?thesis
        unfolding e using mk(1) mk(3) by (intro advances_emit_instr) simp_all
    qed
  qed
qed

lemma push_locals_advances:
  "advances bb s bb1 s1 \<Longrightarrow> b = bb \<or> length (blocks s) \<le> b \<Longrightarrow> advances bb s bb1 (push_locals b ls ex s1)"
  by (simp add: push_locals_def emit_instrs_advances)

lemma pop_locals_advances:
  "advances bb s bb1 s1 \<Longrightarrow> b = bb \<or> length (blocks s) \<le> b \<Longrightarrow> advances bb s bb1 (pop_locals b ls ex s1)"
  by (simp add: pop_locals_def emit_instrs_advances)

lemma proc_call_begin_advances:
  assumes "proc_call_begin i pt bb s = (ls, pb, s1)"
  shows "advances bb s pb s1"
proof -
  obtain b s2 where m: "make_labelled_block (label_name i @ ''_prologue'') s = (b, s2)"
    by (cases "make_labelled_block (label_name i @ ''_prologue'') s")
  note mk = advances_make_labelled_block [OF advances_refl m]
  show ?thesis using assms m mk
    by (auto simp add: proc_call_begin_def push_locals_advances split: if_splits)
qed

lemma proc_call_invoke_advances:
  assumes "advances bb0 s0 bb s" and "length (blocks s0) \<le> cb"
    and "proc_call_invoke callee pt al cb s = (st, s')"
  shows "advances bb0 s0 bb s'"
  using assms
  by (auto simp add: proc_call_invoke_def error_advances advances_emit_instr
      split: if_splits option.splits)

lemma proc_call_epilogue_advances:
  assumes "advances bb0 s0 bb s" and "proc_call_epilogue i pt al ls r s = (st, bb', r', s')"
  shows "advances bb0 s0 bb' s'"
proof -
  obtain b s2 where m: "make_labelled_block (label_name i @ ''_epilogue'') s = (b, s2)"
    by (cases "make_labelled_block (label_name i @ ''_epilogue'') s")
  note mk = advances_make_labelled_block [OF assms(1) m]
  show ?thesis using assms(2) m mk
    by (auto simp add: proc_call_epilogue_def pop_locals_advances advances_emit_instr
        split: if_splits option.splits)
qed

lemma proc_call_finish_advances:
  assumes "advances bb0 s0 pb s" and "proc_call_finish i callee pt al ls pb r s = (st, bb', r', s')"
  shows "advances bb0 s0 bb' s'"
proof -
  note c = advances_current [OF assms(1)]
  define sa where "sa = (if \<not> is_foreign pt \<and> return_type pt \<noteq> None
               then emit_instr pb op_sub [SP, SP, Immediate 8 byte] s else s)"
  have sa: "advances bb0 s0 pb sa"
    using assms(1) c by (simp add: sa_def advances_emit_instr)
  obtain cb sb where m: "make_labelled_block (label_name i @ ''_invoke'') sa = (cb, sb)"
    by (cases "make_labelled_block (label_name i @ ''_invoke'') sa")
  note mk = advances_make_labelled_block [OF sa m]
  obtain ist sd where inv: "proc_call_invoke callee pt al cb sb = (ist, sd)"
    by (cases "proc_call_invoke callee pt al cb sb")
  have sd: "advances bb0 s0 cb sd"
    using proc_call_invoke_advances [OF mk(1) mk(3) inv] .
  show ?thesis
    using assms(2) m inv sd unfolding proc_call_finish_def sa_def [symmetric]
    by (auto split: if_splits dest: proc_call_epilogue_advances [rotated])
qed

lemma push_argument_advances:
  assumes "advances bb0 s0 bb s" and "push_argument al fc bb ar s = (st, bb', s')"
  shows "advances bb0 s0 bb' s'"
  using assms advances_current [OF assms(1)]
  by (auto simp add: push_argument_def Let_def advances_emit_instr
      split: option.splits if_splits)

lemma emit_expr_advances_aux:
  "(\<forall>st bb' r' s'. emit_expr e bb r s = (st, bb', r', s') \<longrightarrow> advances bb s bb' s')"
  "(\<forall>st bb' s'. emit_arguments al fc es bb s = (st, bb', s') \<longrightarrow> advances bb s bb' s')"
proof (induction e bb r s and al fc es bb s rule: emit_expr_emit_arguments.induct)
  case (1 i bb r s)
  then show ?case by simp
next
  case (2 i v bb r s)
  then show ?case by simp
next
  case (3 i v bb r s)
  then show ?case by (simp split: option.splits)
next
  case (4 i bb r s)
  then show ?case by simp
next
  case (5 i ident bb r s)
  then show ?case by (auto split: option.splits)
next
  case (6 i e target bb r s)
  then show ?case
    by (auto split: prod.splits if_splits dest: emit_cast_advances [rotated])
next
  case (7 i e target bb r s)
  then show ?case
    by (auto split: prod.splits if_splits dest: emit_transmute_advances [rotated])
next
  case (8 i owning t lhs rhs bb r s)
  show ?case
  proof (intro allI impI)
    fix st bb' r' s'
    assume eq: "emit_expr (Binary_operator i owning t lhs rhs) bb r s = (st, bb', r', s')"
    show "advances bb s bb' s'"
    proof (cases "is_arithmetic_operator t")
      case True
      obtain st1 bb1 lr s1 where l: "emit_expr lhs bb empty_result s = (st1, bb1, lr, s1)"
        by (cases "emit_expr lhs bb empty_result s") auto
      have a1: "advances bb s bb1 s1" using "8.IH"(1) [OF True] l by blast
      show ?thesis
      proof (cases "st1 = Success")
        case False
        then show ?thesis using eq True l a1 by simp
      next
        case s1: True
        obtain st2 bb2 rr s2 where r: "emit_expr rhs bb1 empty_result s1 = (st2, bb2, rr, s2)"
          by (cases "emit_expr rhs bb1 empty_result s1") auto
        have "advances bb1 s1 bb2 s2"
          using "8.IH"(2) [OF True l [symmetric] refl refl] s1 r by auto
        then have a2: "advances bb s bb2 s2" using a1 advances_trans by blast
        show ?thesis using eq True l r s1 a2
          by (auto split: if_splits dest: arithmetic_finish_advances [rotated])
      qed
    next
      case na: False
      show ?thesis
      proof (cases "is_relational_operator t")
        case True
        obtain st1 bb1 lr s1 where l: "emit_expr lhs bb empty_result s = (st1, bb1, lr, s1)"
          by (cases "emit_expr lhs bb empty_result s") auto
        have a1: "advances bb s bb1 s1" using "8.IH"(3) [OF na True] l by blast
        show ?thesis
        proof (cases "st1 = Success")
          case False
          then show ?thesis using eq na True l a1 by simp
        next
          case s1: True
          obtain st2 bb2 rr s2 where r: "emit_expr rhs bb1 empty_result s1 = (st2, bb2, rr, s2)"
            by (cases "emit_expr rhs bb1 empty_result s1") auto
          have "advances bb1 s1 bb2 s2"
            using "8.IH"(4) [OF na True l [symmetric] refl refl] s1 r by auto
          then have a2: "advances bb s bb2 s2" using a1 advances_trans by blast
          show ?thesis using eq na True l r s1 a2
            by (auto split: if_splits dest: relational_finish_advances [rotated])
        qed
      next
        case nr: False
        show ?thesis
        proof (cases "t = subscript")
          case True
          then show ?thesis using eq na nr by (auto simp add: advances_emit_instr)
        next
          case ns: False
          obtain st1 bb1 rr s1 where r: "emit_expr rhs bb empty_result s = (st1, bb1, rr, s1)"
            by (cases "emit_expr rhs bb empty_result s") auto
          have a1: "advances bb s bb1 s1" using "8.IH"(5) [OF na nr ns] r by blast
          show ?thesis
          proof (cases "st1 = Success")
            case False
            then show ?thesis using eq na nr ns r a1 by simp
          next
            case s1: True
            obtain st2 bb2 lr s2 where l: "emit_expr lhs bb1 empty_result s1 = (st2, bb2, lr, s2)"
              by (cases "emit_expr lhs bb1 empty_result s1") auto
            have "advances bb1 s1 bb2 s2"
              using "8.IH"(6) [OF na nr ns r [symmetric] refl refl] s1 l by auto
            then have a2: "advances bb s bb2 s2" using a1 advances_trans by blast
            show ?thesis using eq na nr ns l r s1 a2
              by (auto split: if_splits dest: assignment_finish_advances [rotated])
          qed
        qed
      qed
    qed
  qed
next
  case (9 i foreign_call ok es bb r s)
  then show ?case by (auto split: prod.splits)
next
  case (10 i callee pt arg_list bb r s)
  show ?case
  proof (intro allI impI)
    fix st bb' r' s'
    assume eq: "emit_expr (Proc_call i callee pt arg_list) bb r s = (st, bb', r', s')"
    obtain ls pb s1 where b: "proc_call_begin i pt bb s = (ls, pb, s1)"
      by (cases "proc_call_begin i pt bb s") auto
    note a0 = proc_call_begin_advances [OF b]
    show "advances bb s bb' s'"
    proof (cases arg_list)
      case None
      then show ?thesis using eq b a0 by (auto dest: proc_call_finish_advances [rotated])
    next
      case (Some al)
      obtain st1 bb1 ar s2 where e: "emit_expr al pb empty_result s1 = (st1, bb1, ar, s2)"
        by (cases "emit_expr al pb empty_result s1") auto
      have "advances pb s1 bb1 s2"
        using "10.IH" [OF b [symmetric] refl Some] e by blast
      then have a1: "advances bb s bb1 s2" using a0 advances_trans by blast
      show ?thesis using eq b Some e a1
        by (auto split: if_splits dest: proc_call_finish_advances [rotated])
    qed
  qed
next
  case (11 arg_list foreign_call bb s)
  then show ?case by simp
next
  case (12 arg_list foreign_call arg right bb s)
  show ?case
  proof (intro allI impI)
    fix st bb' s'
    assume eq: "emit_arguments arg_list foreign_call (arg # right) bb s = (st, bb', s')"
    obtain st1 bb1 s1 where r: "emit_arguments arg_list foreign_call right bb s = (st1, bb1, s1)"
      by (cases "emit_arguments arg_list foreign_call right bb s") auto
    have a1: "advances bb s bb1 s1" using "12.IH"(1) r by blast
    show "advances bb s bb' s'"
    proof (cases "st1 = Success")
      case False
      then show ?thesis using eq r a1 by simp
    next
      case True
      have ih2: "\<And>i2 fc2 ok2 es2 st bb' s'. arg = Argument_list i2 fc2 ok2 es2 \<Longrightarrow>
          emit_arguments (element_id i2) fc2 es2 bb1 s1 = (st, bb', s') \<Longrightarrow> advances bb1 s1 bb' s'"
        using "12.IH"(9) [OF r [symmetric] refl] True by auto
      have ih3: "\<And>st bb' r' s'. emit_expr arg bb1 empty_result s1 = (st, bb', r', s') \<Longrightarrow>
          (\<forall>i2. arg \<noteq> Identifier i2) \<Longrightarrow> (\<forall>i2 fc2 ok2 es2. arg \<noteq> Argument_list i2 fc2 ok2 es2) \<Longrightarrow>
          advances bb1 s1 bb' s'"
        using "12.IH"(2-) [OF r [symmetric] refl] True by (cases arg) auto
      show ?thesis
      proof (cases arg)
        case (Argument_list i2 fc2 ok2 es2)
        then show ?thesis using eq r True ih2 a1 advances_trans by auto
      next
        case (Identifier i2)
        then show ?thesis using eq r True a1 by simp
      qed (use eq r True a1 ih3 in \<open>auto split: prod.splits if_splits
            dest!: push_argument_advances [rotated] intro: advances_trans\<close>)
    qed
  qed
qed

lemma emit_expr_advances: "emit_expr e bb r s = (st, bb', r', s') \<Longrightarrow> advances bb s bb' s'"
  using emit_expr_advances_aux(1) by blast

lemma advances_state_updates [simp]:
  "advances bb s bb1 (push_flow_control fc s1) = advances bb s bb1 s1"
  "advances bb s bb1 (pop_flow_control s1) = advances bb s bb1 s1"
  "advances bb s bb1 (update_flow_control p f s1) = advances bb s bb1 s1"
  "advances bb s bb1 (remove e s1) = advances bb s bb1 s1"
  "advances bb s bb1 (error c m s1) = advances bb s bb1 s1"
  by (simp_all add: advances_def grows_def push_flow_control_def pop_flow_control_def
      update_flow_control_def remove_def error_def)

lemma advances_from_updates [simp]:
  "advances bb (push_flow_control fc s) bb1 s1 = advances bb s bb1 s1"
  "advances bb (update_flow_control p f s) bb1 s1 = advances bb s bb1 s1"
  by (simp_all add: advances_def grows_def push_flow_control_def update_flow_control_def)

lemma make_binary_operator_blocks:
  "make_binary_operator t l r s = (e, s1) \<Longrightarrow> blocks s1 = blocks s"
  by (auto simp add: make_binary_operator_def)

lemma advances_make_binary_operator:
  "advances bb s bb1 s1 \<Longrightarrow> make_binary_operator t l r s1 = (e, s2) \<Longrightarrow> advances bb s bb1 s2"
  by (auto simp add: make_binary_operator_def)

lemma if_predicate_advances:
  assumes "if_predicate i p s = (st, tb, s1)"
  shows "advances bb s bb s1" and "st = Success \<Longrightarrow> length (blocks s) \<le> tb \<and> tb < length (blocks s1)"
proof -
  obtain pb sa where m: "make_labelled_block (label_name i @ ''_entry'') s = (pb, sa)"
    by (cases "make_labelled_block (label_name i @ ''_entry'') s")
  note mk = advances_make_labelled_block [OF advances_refl [of bb s] m]
  obtain st1 pb1 pr sb where e: "emit_expr p pb empty_result sa = (st1, pb1, pr, sb)"
    by (cases "emit_expr p pb empty_result sa") auto
  have a1: "advances bb s pb1 sb"
    using advances_trans [OF mk(1) emit_expr_advances [OF e]] .
  note c1 = advances_current [OF a1]
  have both: "advances bb s bb s1 \<and> (st = Success \<longrightarrow> length (blocks s) \<le> tb \<and> tb < length (blocks s1))"
  proof (cases "st1 = Success")
    case False
    then have "s1 = sb" using assms m e by (simp add: if_predicate_def)
    moreover have "st \<noteq> Success" using False assms m e by (simp add: if_predicate_def)
    ultimately show ?thesis using a1 by (auto simp add: advances_def)
  next
    case True
    show ?thesis
    proof (cases "operands_back (result_operands pr)")
      case None
      then have "s1 = sb" "st = Crashed" using True assms m e by (simp_all add: if_predicate_def)
      then show ?thesis using a1 by (auto simp add: advances_def)
    next
      case (Some x)
      define sc where "sc = emit_instr pb1 op_bz [x, Named_ref ref_label (label_name i @ ''_false'') qword] sb"
      have sc: "advances bb s pb1 sc"
        unfolding sc_def using a1 c1 by (intro advances_emit_instr) auto
      obtain t sd where m2: "make_labelled_block (label_name i @ ''_true'') sc = (t, sd)"
        by (cases "make_labelled_block (label_name i @ ''_true'') sc")
      note mk2 = advances_make_labelled_block [OF sc m2]
      have "if_predicate i p s = (Success, t, sd)"
        using True Some m e m2 by (simp add: if_predicate_def sc_def)
      then have "st = Success" "tb = t" "s1 = sd" using assms by simp_all
      then show ?thesis using mk2 by (auto simp add: advances_def)
    qed
  qed
  show "advances bb s bb s1" using both by simp
  show "st = Success \<Longrightarrow> length (blocks s) \<le> tb \<and> tb < length (blocks s1)" using both by simp
qed

lemma if_jump_advances:
  "advances bb s bb1 s1 \<Longrightarrow> advances bb s bb1 (if_jump i bb1 s1)"
  using advances_current [of bb s bb1 s1]
  by (auto simp add: if_jump_def advances_emit_instr)

lemma if_false_block_advances:
  assumes "advances bb s bb1 s1" and "if_false_block i bb1 s1 = (fb, s2)"
  shows "advances bb s fb s2"
  using advances_make_labelled_block(1) [OF if_jump_advances [OF assms(1)]] assms(2)
  by (simp add: if_false_block_def)

lemma if_exit_advances:
  assumes "advances bb s bb1 s1" and "if_exit i r s1 = (st, bb', r', s')"
  shows "advances bb s bb' s'"
proof -
  obtain b s2 where m: "make_labelled_block (label_name i @ ''_exit'') s1 = (b, s2)"
    by (cases "make_labelled_block (label_name i @ ''_exit'') s1")
  show ?thesis
    using advances_make_labelled_block(1) [OF assms(1) m] assms(2) m by (simp add: if_exit_def)
qed

lemma while_predicate_advances:
  assumes "while_predicate i p s = (st, bb1, body_block, s1)"
  shows "advances bb s bb1 s1" and "st = Success \<Longrightarrow> bb1 = body_block"
proof -
  define s0 where "s0 = push_flow_control
                (new_flow_control (Some (label_name i @ ''_exit'')) (Some (label_name i @ ''_entry'')) None) s"
  obtain pb sa where m: "make_labelled_block (label_name i @ ''_entry'') s0 = (pb, sa)"
    by (cases "make_labelled_block (label_name i @ ''_entry'') s0")
  have r0: "advances bb s bb s0" by (simp add: s0_def)
  note mk = advances_make_labelled_block [OF r0 m]
  obtain st1 pb1 pr sb where e: "emit_expr p pb empty_result sa = (st1, pb1, pr, sb)"
    by (cases "emit_expr p pb empty_result sa") auto
  have a1: "advances bb s pb1 sb"
    using advances_trans [OF mk(1) emit_expr_advances [OF e]] .
  have both: "advances bb s bb1 s1 \<and> (st = Success \<longrightarrow> bb1 = body_block)"
  proof (cases "st1 = Success")
    case False
    then show ?thesis using assms m e a1 unfolding while_predicate_def s0_def [symmetric] by auto
  next
    case True
    show ?thesis
    proof (cases "operands_back (result_operands pr)")
      case None
      then show ?thesis using True assms m e a1 unfolding while_predicate_def s0_def [symmetric] by auto
    next
      case (Some x)
      define sc where "sc = emit_instr pb op_bz [x, Named_ref ref_label (label_name i @ ''_exit'') qword] sb"
      have sc: "advances bb s pb1 sc"
        unfolding sc_def using a1 mk(3) by (intro advances_emit_instr) auto
      obtain t sd where m2: "make_labelled_block (label_name i @ ''_body'') sc = (t, sd)"
        by (cases "make_labelled_block (label_name i @ ''_body'') sc")
      note mk2 = advances_make_labelled_block [OF sc m2]
      have "while_predicate i p s = (Success, t, t, sd)"
        using True Some m e m2 unfolding while_predicate_def s0_def [symmetric] by (simp add: sc_def)
      then show ?thesis using assms mk2 by auto
    qed
  qed
  show "advances bb s bb1 s1" using both by simp
  show "st = Success \<Longrightarrow> bb1 = body_block" using both by simp
qed

lemma while_finish_advances:
  assumes "advances bb s bb1 s1" and "b = bb \<or> length (blocks s) \<le> b"
    and "while_finish i b r s1 = (st, bb', r', s')"
  shows "advances bb s bb' s'"
proof -
  define sa where "sa = emit_instr b op_jmp [Named_ref ref_label (label_name i @ ''_entry'') qword] s1"
  have sa: "advances bb s bb1 sa"
    unfolding sa_def by (intro advances_emit_instr assms(1,2))
  obtain e s2 where m: "make_labelled_block (label_name i @ ''_exit'') sa = (e, s2)"
    by (cases "make_labelled_block (label_name i @ ''_exit'') sa")
  note mk = advances_make_labelled_block [OF sa m]
  have "advances bb s e (emit_instr e op_nop [] s2)"
    using mk(1) mk(3) by (intro advances_emit_instr) simp_all
  then show ?thesis
    using assms(3) m unfolding while_finish_def sa_def [symmetric] by auto
qed

lemma switch_begin_advances:
  assumes "switch_begin i e s = (b, s1)"
  shows "advances bb s b s1"
proof -
  have "advances bb s bb (push_flow_control (new_flow_control (Some (label_name i @ ''_exit'')) None (Some e)) s)"
    by simp
  from advances_make_labelled_block(1) [OF this] assms show ?thesis
    by (simp add: switch_begin_def)
qed

lemma switch_finish_advances:
  assumes "advances bb s bb1 s1" and "switch_finish i r s1 = (st, bb', r', s')"
  shows "advances bb s bb' s'"
proof -
  obtain e s2 where m: "make_labelled_block (label_name i @ ''_exit'') s1 = (e, s2)"
    by (cases "make_labelled_block (label_name i @ ''_exit'') s1")
  note mk = advances_make_labelled_block [OF assms(1) m]
  have "advances bb s e (emit_instr e op_nop [] s2)"
    using mk(1) mk(3) by (intro advances_emit_instr) simp_all
  then show ?thesis
    using assms(2) m unfolding switch_finish_def by auto
qed

lemma emit_jump_to_advances:
  assumes "emit_jump_to l which msg r bb s = (st, bb', r', s')"
  shows "advances bb s bb' s'"
proof -
  obtain e s2 where m: "make_block s = (e, s2)" by (cases "make_block s")
  note mk = advances_make_block [OF advances_refl [of bb s] m]
  have "\<And>n. advances bb s e (emit_instr e op_jmp [Named_ref ref_label n qword] s2)"
    using mk(1) mk(3) by (intro advances_emit_instr) simp_all
  then show ?thesis
    using assms m unfolding emit_jump_to_def
    by (auto split: option.splits)
qed

lemma return_tail_advances:
  "advances bb s bb1 s1 \<Longrightarrow> b = bb \<or> length (blocks s) \<le> b \<Longrightarrow> advances bb s bb1 (return_tail b s1)"
  unfolding return_tail_def by (intro advances_emit_instr)

lemma begin_stack_frame_advances:
  "advances bb s bb (begin_stack_frame f d bb s)"
  unfolding begin_stack_frame_def
  by (auto intro!: advances_emit_instr)

lemma end_stack_frame_advances:
  assumes "advances bb s bb1 s1"
  shows "advances bb s bb1 (end_stack_frame f bb1 s1)"
proof -
  obtain e s2 where m: "make_block s1 = (e, s2)" by (cases "make_block s1")
  note mk = advances_make_block [OF assms m]
  have "advances bb s bb1 (emit_instr e op_pop [FP] (emit_instr e op_move [SP, FP] s2))"
    using mk(2) mk(3) by (intro advances_emit_instr) simp_all
  then show ?thesis using assms m mk(2)
    by (auto simp add: end_stack_frame_def)
qed

lemma emit_labels_advances:
  "advances bb s bb1 s1 \<Longrightarrow> advances bb s bb1 (emit_labels ls bb1 s1)"
proof (induction ls arbitrary: s1)
  case Nil
  then show ?case by simp
next
  case (Cons n ls)
  have "advances bb s bb1 (add_label bb1 n s1)"
    using Cons.prems advances_current [OF Cons.prems] by (intro advances_add_label) auto
  then show ?case using Cons.IH by simp
qed

lemma set_neighbours_advances [simp]:
  "advances bb s bb1 (set_neighbours p n s1) = advances bb s bb1 s1"
  by (simp add: set_neighbours_def split: option.splits)

lemma case_finish_advances:
  assumes "advances bb s bb1 s1" and "tb = bb \<or> (length (blocks s) \<le> tb \<and> tb < length (blocks s1))"
    and "case_finish i e p fl tb r s1 = (st, bb', r', s')"
  shows "advances bb s bb' s'"
proof (cases "e \<noteq> None \<and> fallthrough (flow_control p s1) \<and> fl = None")
  case True
  then have "bb' = tb" "s' = s1" using assms(3) by (simp_all add: case_finish_def)
  then show ?thesis using assms(1,2) by (auto simp add: advances_def)
next
  case False
  define sa where "sa = (if e = None then s1
                  else if fallthrough (flow_control p s1)
                  then emit_instr tb op_jmp [label_operand fl] s1
                  else emit_instr tb op_jmp [label_operand (exit_label (flow_control p s1))] s1)"
  have sa: "advances bb s bb1 sa"
    unfolding sa_def using assms(1,2) by (auto intro!: advances_emit_instr)
  obtain x s2 where m: "make_labelled_block (label_name i @ ''_false'') sa = (x, s2)"
    by (cases "make_labelled_block (label_name i @ ''_false'') sa")
  note mk = advances_make_labelled_block [OF sa m]
  have "case_finish i e p fl tb r s1 = (Success, x, r, s2)"
    using False m [unfolded sa_def] unfolding case_finish_def by (auto simp add: Let_def)
  then show ?thesis using assms(3) mk(1) by simp
qed

lemma case_predicate_advances:
  assumes "case_predicate i e p bb s = (st, fl, bb1, s1)"
  shows "advances bb s bb1 s1"
proof (cases "\<exists>ex nx l sw. e = Some ex \<and> next_element (flow_control p s) = Some nx
      \<and> fallthrough_label_of nx = Some l \<and> switch_expression (flow_control p s) = Some sw")
  case False
  then show ?thesis using assms
    by (auto simp add: case_predicate_def split: option.splits)
next
  case True
  then obtain ex nx l sw where h: "e = Some ex" "next_element (flow_control p s) = Some nx"
      "fallthrough_label_of nx = Some l" "switch_expression (flow_control p s) = Some sw" by blast
  obtain eq sa where mb: "make_binary_operator equals sw ex s = (eq, sa)"
    by (cases "make_binary_operator equals sw ex s")
  have a0: "advances bb s bb sa"
    using advances_make_binary_operator [OF advances_refl mb] .
  obtain pb sb where m: "make_block sa = (pb, sb)" by (cases "make_block sa")
  note mk = advances_make_block [OF a0 m]
  define sc where "sc = update_flow_control p (\<lambda>c. c\<lparr>predecessor := Some pb\<rparr>) sb"
  have sc: "advances bb s pb sc" using mk(1) by (simp add: sc_def)
  obtain st1 pb1 er sd where em: "emit_expr (make_non_owning eq) pb empty_result sc = (st1, pb1, er, sd)"
    by (cases "emit_expr (make_non_owning eq) pb empty_result sc") auto
  have a1: "advances bb s pb1 sd"
    using advances_trans [OF sc emit_expr_advances [OF em]] .
  have a2: "\<And>x. advances bb s pb1 (emit_instr pb op_bz [x, Named_ref ref_label (label_name i @ ''_false'') qword] sd)"
    using a1 mk(3) by (intro advances_emit_instr) simp_all
  show ?thesis
    using assms h mb m em [unfolded sc_def] a1 a2 unfolding case_predicate_def
    by (auto split: if_splits option.splits)
qed

lemma for_step_advances:
  assumes "advances bb s bb1 s1" and "for_step i ind step dv init cmp r s1 = (st, bb', r', s')"
  shows "advances bb s bb' s'"
proof -
  obtain sb sa where m: "make_block s1 = (sb, sa)" by (cases "make_block s1")
  note mk = advances_make_block [OF assms(1) m]
  obtain stp s2 where b1: "make_binary_operator (step_op_type dv) ind step sa = (stp, s2)"
    by (cases "make_binary_operator (step_op_type dv) ind step sa")
  obtain asg s3 where b2: "make_binary_operator assignment ind (make_non_owning stp) s2 = (asg, s3)"
    by (cases "make_binary_operator assignment ind (make_non_owning stp) s2")
  have a3: "advances bb s sb s3"
    using advances_make_binary_operator [OF advances_make_binary_operator [OF mk(1) b1] b2] .
  obtain st1 bb2 r1 s4 where em: "emit_expr (make_non_owning asg) sb r s3 = (st1, bb2, r1, s4)"
    by (cases "emit_expr (make_non_owning asg) sb r s3") auto
  have a4: "advances bb s bb2 s4"
    using advances_trans [OF a3 emit_expr_advances [OF em]] .
  define sj where "sj = emit_instr sb op_jmp [Named_ref ref_label (label_name i @ ''_entry'') qword] s4"
  have sj: "advances bb s bb2 sj"
    unfolding sj_def using a4 mk(3) by (intro advances_emit_instr) simp_all
  obtain e s5 where m2: "make_labelled_block (label_name i @ ''_exit'') sj = (e, s5)"
    by (cases "make_labelled_block (label_name i @ ''_exit'') sj")
  note mk2 = advances_make_labelled_block [OF sj m2]
  show ?thesis
    using assms(2) m b1 b2 em a4 m2 [unfolded sj_def] mk2(1) unfolding for_step_def
    by (auto split: if_splits)
qed

lemma for_begin_advances:
  assumes "for_begin i ind start stop dir kind r s = (st, bb1, r1, init, cmp, dv, s1)"
  shows "advances bb s bb1 s1"
proof -
  define s0 where "s0 = push_flow_control
                (new_flow_control (Some (label_name i @ ''_exit'')) (Some (label_name i @ ''_entry'')) None) s"
  obtain ini sa where b1: "make_binary_operator assignment ind start s0 = (ini, sa)"
    by (cases "make_binary_operator assignment ind start s0")
  have a0: "advances bb s bb sa"
    using advances_make_binary_operator [OF _ b1, of bb s bb] by (simp add: s0_def)
  obtain ib sb where m: "make_block sa = (ib, sb)" by (cases "make_block sa")
  note mk = advances_make_block [OF a0 m]
  obtain st1 bbi ri sc where em: "emit_expr (make_non_owning ini) ib r sb = (st1, bbi, ri, sc)"
    by (cases "emit_expr (make_non_owning ini) ib r sb") auto
  have a1: "advances bb s bbi sc"
    using advances_trans [OF mk(1) emit_expr_advances [OF em]] .
  show ?thesis
  proof (cases "st1 = Success \<and> (\<exists>d k. as_integer dir = Some d \<and> as_integer kind = Some k)")
    case False
    then show ?thesis
      using assms b1 m em a1 unfolding for_begin_def s0_def [symmetric]
      by (auto split: if_splits option.splits)
  next
    case True
    then obtain d k where h: "st1 = Success" "as_integer dir = Some d" "as_integer kind = Some k" by blast
    obtain pb sd where m2: "make_labelled_block (label_name i @ ''_entry'') sc = (pb, sd)"
      by (cases "make_labelled_block (label_name i @ ''_entry'') sc")
    note mk2 = advances_make_labelled_block [OF a1 m2]
    obtain cm se where b2: "make_binary_operator (cmp_op_type k d) ind stop sd = (cm, se)"
      by (cases "make_binary_operator (cmp_op_type k d) ind stop sd")
    have a2: "advances bb s pb se"
      using advances_make_binary_operator [OF mk2(1) b2] .
    obtain st2 bbc rc sf where em2: "emit_expr (make_non_owning cm) pb empty_result se = (st2, bbc, rc, sf)"
      by (cases "emit_expr (make_non_owning cm) pb empty_result se") auto
    have a3: "advances bb s bbc sf"
      using advances_trans [OF a2 emit_expr_advances [OF em2]] .
    have a4: "\<And>x. advances bb s bbc (emit_instr pb op_bz [x, Named_ref ref_label (label_name i @ ''_exit'') qword] sf)"
      using a3 mk2(3) by (intro advances_emit_instr) simp_all
    have a5: "\<And>x b sg. make_labelled_block (label_name i @ ''_body'')
          (emit_instr pb op_bz [x, Named_ref ref_label (label_name i @ ''_exit'') qword] sf) = (b, sg)
        \<Longrightarrow> advances bb s b sg"
      using advances_make_labelled_block(1) [OF a4] by blast
    show ?thesis
      using assms h b1 m em m2 b2 em2 a3 a5 unfolding for_begin_def s0_def [symmetric]
      by (auto split: if_splits option.splits prod.splits)
  qed
qed

lemma emit_element_advances_aux:
  "(\<forall>st bb' r' s'. emit_element e bb r s = (st, bb', r', s') \<longrightarrow> advances bb s bb' s')"
  "(\<forall>st bb' s'. emit_statement stmt bb s = (st, bb', s') \<longrightarrow> advances bb s bb' s')"
  "(\<forall>st bb' s'. emit_statements prev stmts bb s = (st, bb', s') \<longrightarrow> advances bb s bb' s')"
  "(\<forall>st bb' s'. emit_deferred ds bb s = (st, bb', s') \<longrightarrow> advances bb s bb' s')"
proof (induction e bb r s and stmt bb s and prev stmts bb s and ds bb s
    rule: emit_element_emit_statement_emit_statements_emit_deferred.induct)
  case (1 e bb r s)
  then show ?case by (auto dest: emit_expr_advances)
next
  case (2 i predicate true_branch false_branch bb r s)
  show ?case
  proof (intro allI impI)
    fix st bb' r' s'
    assume eq: "emit_element (If_e i predicate true_branch false_branch) bb r s = (st, bb', r', s')"
    obtain st1 tb s1 where p: "if_predicate i predicate s = (st1, tb, s1)"
      by (cases "if_predicate i predicate s") auto
    note pa = if_predicate_advances(1) [OF p, of bb] if_predicate_advances(2) [OF p]
    show "advances bb s bb' s'"
    proof (cases "st1 = Success")
      case False
      then show ?thesis using eq p pa(1) by simp
    next
      case t1: True
      obtain st2 tb1 tr s2 where t: "emit_element true_branch tb empty_result s1 = (st2, tb1, tr, s2)"
        by (cases "emit_element true_branch tb empty_result s1") auto
      have ih1: "advances tb s1 tb1 s2"
        using "2.IH"(1) [OF p [symmetric] refl] t1 t by auto
      have a1: "advances bb s tb s1"
        using pa t1 by (auto simp add: advances_def)
      have a2: "advances bb s tb1 s2"
        using advances_trans [OF a1 ih1] .
      have a2': "advances bb s bb s2"
        using a2 by (auto simp add: advances_def)
      show ?thesis
      proof (cases "st2 = Success")
        case False
        then show ?thesis using eq p t1 t a2' by simp
      next
        case t2: True
        obtain fb s3 where f: "if_false_block i tb1 s2 = (fb, s3)"
          by (cases "if_false_block i tb1 s2")
        note fa = if_false_block_advances [OF a2 f]
        show ?thesis
        proof (cases false_branch)
          case None
          have "advances bb s fb (emit_instr fb op_nop [] s3)"
            using fa advances_current [OF fa] by (intro advances_emit_instr) auto
          then show ?thesis using eq p t1 t t2 f None
            by (auto dest: if_exit_advances [rotated])
        next
          case (Some fe)
          obtain st3 fb1 fr s4 where g: "emit_element fe fb empty_result s3 = (st3, fb1, fr, s4)"
            by (cases "emit_element fe fb empty_result s3") auto
          have ih2: "advances fb s3 fb1 s4"
            using "2.IH"(2) [OF p [symmetric] refl _ t [symmetric] refl refl _ Some] t1 t2 f g by auto
          have a3: "advances bb s fb1 s4"
            using advances_trans [OF fa ih2] .
          have a3': "advances bb s bb s4"
            using a3 by (auto simp add: advances_def)
          show ?thesis using eq p t1 t t2 f Some g a3 a3'
            by (auto split: if_splits dest: if_exit_advances [rotated])
        qed
      qed
    qed
  qed
next
  case (3 i predicate body bb r s)
  show ?case
  proof (intro allI impI)
    fix st bb' r' s'
    assume eq: "emit_element (While_e i predicate body) bb r s = (st, bb', r', s')"
    obtain st1 bb1 body_block s1 where p: "while_predicate i predicate s = (st1, bb1, body_block, s1)"
      by (cases "while_predicate i predicate s") auto
    note pa = while_predicate_advances(1) [OF p, of bb] while_predicate_advances(2) [OF p]
    show "advances bb s bb' s'"
    proof (cases "st1 = Success")
      case False
      then show ?thesis using eq p pa(1) by simp
    next
      case t1: True
      then have bb1: "bb1 = body_block" using pa(2) by simp
      obtain st2 bb2 r1 s2 where b: "emit_element body body_block (infer i r) s1 = (st2, bb2, r1, s2)"
        by (cases "emit_element body body_block (infer i r) s1") auto
      have ih: "advances body_block s1 bb2 s2"
        using "3.IH" [OF p [symmetric] refl refl] t1 b by auto
      have a2: "advances bb s bb2 s2"
        using advances_trans [OF pa(1) [unfolded bb1] ih] .
      show ?thesis
        using eq p t1 b a2 advances_current [OF pa(1) [unfolded bb1]]
        by (auto split: if_splits dest: while_finish_advances [rotated 2])
    qed
  qed
next
  case (4 i induction body bb r s)
  then show ?case by simp
next
  case (5 i induction body bb r s)
  then show ?case by simp
next
  case (6 i induction start stop step dir kind body bb r s)
  show ?case
  proof (intro allI impI)
    fix st bb' r' s'
    assume eq: "emit_element (For_e i induction (Range start stop step dir kind) body) bb r s = (st, bb', r', s')"
    obtain st1 bb1 r1 ini cm dv s1 where
      p: "for_begin i induction start stop dir kind (infer i r) s = (st1, bb1, r1, ini, cm, dv, s1)"
      by (cases "for_begin i induction start stop dir kind (infer i r) s") auto
    note pa = for_begin_advances [OF p, of bb]
    show "advances bb s bb' s'"
    proof (cases "st1 = Success")
      case False
      then show ?thesis using eq p pa by simp
    next
      case t1: True
      obtain st2 bb2 r2 s2 where b: "emit_element body bb1 r1 s1 = (st2, bb2, r2, s2)"
        by (cases "emit_element body bb1 r1 s1") auto
      have ih: "advances bb1 s1 bb2 s2"
        using "6.IH" [OF p [symmetric] refl refl refl refl refl] t1 b by auto
      have a2: "advances bb s bb2 s2"
        using advances_trans [OF pa ih] .
      show ?thesis
        using eq p t1 b a2
        by (auto split: if_splits dest: for_step_advances [rotated])
    qed
  qed
next
  case (7 i e scope bb r s)
  show ?case
  proof (intro allI impI)
    fix st bb' r' s'
    assume eq: "emit_element (Switch_e i e scope) bb r s = (st, bb', r', s')"
    obtain eb s1 where p: "switch_begin i e s = (eb, s1)"
      by (cases "switch_begin i e s")
    note pa = switch_begin_advances [OF p, of bb]
    obtain st2 bb2 r2 s2 where b: "emit_element scope eb (infer i r) s1 = (st2, bb2, r2, s2)"
      by (cases "emit_element scope eb (infer i r) s1") auto
    have ih: "advances eb s1 bb2 s2"
      using "7.IH" b p by auto
    have a2: "advances bb s bb2 s2"
      using advances_trans [OF pa ih] .
    show "advances bb s bb' s'"
      using eq p b a2
      by (auto split: if_splits dest: switch_finish_advances [rotated])
  qed
next
  case (8 i expression scope bb r s)
  show ?case
  proof (intro allI impI)
    fix st bb' r' s'
    assume eq: "emit_element (Case_e i expression scope) bb r s = (st, bb', r', s')"
    show "advances bb s bb' s'"
    proof (cases "current_flow_control s")
      case None
      then show ?thesis using eq by simp
    next
      case (Some p)
      define s0 where "s0 = update_flow_control p (\<lambda>c. c\<lparr>fallthrough := False\<rparr>) s"
      obtain st1 fl bb1 s1 where cp: "case_predicate i expression p bb s0 = (st1, fl, bb1, s1)"
        by (cases "case_predicate i expression p bb s0") auto
      have a1: "advances bb s bb1 s1"
        using case_predicate_advances [OF cp] by (simp add: s0_def)
      show ?thesis
      proof (cases "st1 = Success")
        case False
        then show ?thesis using eq Some cp [unfolded s0_def] a1 by simp
      next
        case t1: True
        obtain tb s2 where m: "make_labelled_block (label_name i @ ''_true'') s1 = (tb, s2)"
          by (cases "make_labelled_block (label_name i @ ''_true'') s1")
        note mk = advances_make_labelled_block [OF a1 m]
        obtain st2 bb2 r2 s3 where b: "emit_element scope tb (infer i r) s2 = (st2, bb2, r2, s3)"
          by (cases "emit_element scope tb (infer i r) s2") auto
        have ih: "advances tb s2 bb2 s3"
          using "8.IH" [OF Some cp [unfolded s0_def, symmetric] refl refl _ m [symmetric]] t1 b by auto
        have a2: "advances bb s bb2 s3"
          using advances_trans [OF mk(1) ih] .
        have tbv: "length (blocks s) \<le> tb \<and> tb < length (blocks s3)"
          using mk(3,5) ih by (auto simp add: advances_def grows_def)
        show ?thesis
          using eq Some cp [unfolded s0_def] t1 m b a2 tbv
          by (auto split: if_splits dest: case_finish_advances [rotated 2])
      qed
    qed
  qed
next
  case (9 i label_opt bb r s)
  then show ?case by (auto dest: emit_jump_to_advances)
next
  case (10 i label_opt bb r s)
  then show ?case by (auto dest: emit_jump_to_advances)
next
  case (11 i bb r s)
  then show ?case by (auto split: option.splits)
next
  case (12 i field expressions bb r s)
  show ?case
  proof (intro allI impI)
    fix st bb' r' s'
    assume eq: "emit_element (Return_e i field expressions) bb r s = (st, bb', r', s')"
    obtain rb s1 where m: "make_block s = (rb, s1)" by (cases "make_block s")
    note mk = advances_make_block [OF advances_refl [of bb s] m]
    show "advances bb s bb' s'"
    proof (cases field)
      case None
      then show ?thesis using eq m mk by (auto intro!: return_tail_advances)
    next
      case (Some fl)
      show ?thesis
      proof (cases expressions)
        case Nil
        then show ?thesis using eq m mk Some by auto
      next
        case (Cons e es)
        obtain st1 bb1 er s2 where em: "emit_expr e rb empty_result s1 = (st1, bb1, er, s2)"
          by (cases "emit_expr e rb empty_result s1") auto
        have a1: "advances bb s bb1 s2"
          using advances_trans [OF mk(1) emit_expr_advances [OF em]] .
        have "\<And>x. advances bb s bb1 (return_tail rb (emit_instr rb op_store [Named_ref ref_local fl qword, x] s2))"
          using a1 mk(3) by (intro return_tail_advances advances_emit_instr) simp_all
        then show ?thesis using eq m Some Cons em a1
          by (auto split: if_splits option.splits)
      qed
    qed
  qed
next
  case (13 i expression bb r s)
  then show ?case by (auto split: option.splits prod.splits)
next
  case (14 i bb r s)
  then show ?case by (auto intro!: advances_add_label)
next
  case (15 i has_stack_frame parent_is_directive statements defer_stack bb r s)
  show ?case
  proof (intro allI impI)
    fix st bb' r' s'
    assume eq: "emit_element (Block i has_stack_frame parent_is_directive statements defer_stack) bb r s = (st, bb', r', s')"
    define s0 where "s0 = begin_stack_frame has_stack_frame parent_is_directive bb s"
    have a0: "advances bb s bb s0"
      unfolding s0_def by (rule begin_stack_frame_advances)
    obtain st1 bb1 s1 where es: "emit_statements None statements bb s0 = (st1, bb1, s1)"
      by (cases "emit_statements None statements bb s0") auto
    have ih1: "advances bb s0 bb1 s1"
      using "15.IH"(1) es [unfolded s0_def] unfolding s0_def by auto
    have a1: "advances bb s bb1 s1" using advances_trans [OF a0 ih1] .
    show "advances bb s bb' s'"
    proof (cases "st1 = Success")
      case False
      then show ?thesis using eq es [unfolded s0_def] a1 by simp
    next
      case t1: True
      obtain st2 bb2 s2 where ed: "emit_deferred defer_stack bb1 s1 = (st2, bb2, s2)"
        by (cases "emit_deferred defer_stack bb1 s1") auto
      have ih2: "advances bb1 s1 bb2 s2"
        using "15.IH"(2) [OF es [unfolded s0_def, symmetric] refl] t1 ed by auto
      have a2: "advances bb s bb2 s2" using advances_trans [OF a1 ih2] .
      show ?thesis using eq es [unfolded s0_def] t1 ed a2
        by (auto split: if_splits intro!: end_stack_frame_advances)
    qed
  qed
next
  case (16 i ls expression bb s)
  then show ?case by (auto split: option.splits prod.splits)
next
  case (17 prev bb s)
  then show ?case by simp
next
  case (18 prev stmt rest bb s)
  show ?case
  proof (intro allI impI)
    fix st bb' s'
    assume eq: "emit_statements prev (stmt # rest) bb s = (st, bb', s')"
    define s0 where "s0 = emit_labels (statement_labels stmt) bb s"
    have a0: "advances bb s bb s0"
      unfolding s0_def by (intro emit_labels_advances) simp
    show "advances bb s bb' s'"
    proof (cases "is_defer_statement stmt")
      case True
      have "advances bb s0 bb' s'"
        using "18.IH"(1) [OF True] eq True unfolding s0_def by auto
      then show ?thesis using advances_trans [OF a0] by blast
    next
      case False
      define sn where "sn = set_neighbours prev (next_statement rest) s0"
      have an: "advances bb s bb sn" using a0 by (simp add: sn_def)
      obtain st1 bb1 s1 where e1: "emit_statement stmt bb sn = (st1, bb1, s1)"
        by (cases "emit_statement stmt bb sn") auto
      have ih1: "advances bb sn bb1 s1"
        using "18.IH"(2) [OF False] e1 unfolding sn_def s0_def by auto
      have a1: "advances bb s bb1 s1" using advances_trans [OF an ih1] .
      show ?thesis
      proof (cases "st1 = Success")
        case f: False
        then show ?thesis using eq False e1 [unfolded sn_def s0_def] a1 by simp
      next
        case t1: True
        have "advances bb1 s1 bb' s'"
          using "18.IH"(3) [OF False e1 [unfolded sn_def s0_def, symmetric] refl] t1 eq False
            e1 [unfolded sn_def s0_def] by auto
        then show ?thesis using advances_trans [OF a1] by blast
      qed
    qed
  qed
next
  case (19 bb s)
  then show ?case by simp
next
  case (20 deferred rest bb s)
  show ?case
  proof (intro allI impI)
    fix st bb' s'
    assume eq: "emit_deferred (deferred # rest) bb s = (st, bb', s')"
    obtain st1 bb1 r1 s1 where e1: "emit_element deferred bb empty_result s = (st1, bb1, r1, s1)"
      by (cases "emit_element deferred bb empty_result s") auto
    have a1: "advances bb s bb1 s1" using "20.IH"(1) e1 by auto
    show "advances bb s bb' s'"
    proof (cases "st1 = Success")
      case False
      then show ?thesis using eq e1 a1 by simp
    next
      case True
      have "advances bb1 s1 bb' s'"
        using "20.IH"(2) [OF e1 [symmetric] refl refl] True eq e1 by auto
      then show ?thesis using advances_trans [OF a1] by blast
    qed
  qed
qed



lemmas example_defs =
  example_state_def example_info_def example_identifier_def example_literal_def
  empty_result_def empty_block_def infer_def add_operand_def identifier_op_size_def
  op_size_for_byte_size_def operands_back_def












lemmas emit_defs =
  make_binary_operator_def make_block_def make_labelled_block_def add_label_def emit_instr_def
  push_flow_control_def new_flow_control_def pop_flow_control_def remove_def
  is_arithmetic_operator_def is_relational_operator_def is_logical_conjunction_operator_def
  arithmetic_finish_def relational_finish_def comparison_body_def logical_body_def
  assignment_finish_def label_operand_def is_current_instruction_def
  binary_operator_infer_type_def bool_type_object_def


lemmas statement_defs =
  while_predicate_def while_finish_def begin_stack_frame_def end_stack_frame_def
  if_predicate_def if_jump_def if_false_block_def if_exit_def

text \<open>
  Claim C9 says that the flow control stack is as deep after a loop as before it.
  \<^verbatim>\<open>pop_flow_control\<close> returns when the stack is empty and otherwise does nothing either:
  it leaves every state as it is, and after \<^verbatim>\<open>while true {}\<close>, emitted with an empty stack,
  the record that the loop pushed is still on the stack.
\<close>

theorem while_leaves_flow_control_record:
  "(\<forall>s. pop_flow_control s = s)
   \<and> control_flow_stack example_state = []
   \<and> (\<exists>bb r s'. emit_element example_while 0 empty_result example_state = (Success, bb, r, s')
         \<and> length (control_flow_stack s') = 1)"
proof -
  have p: "\<forall>s. pop_flow_control s = s"
    by (simp add: pop_flow_control_def)
  have e: "control_flow_stack example_state = []"
    by (simp add: example_state_def)
  have r: "fst (emit_element example_while 0 empty_result example_state) = Success
    \<and> length (control_flow_stack (snd (snd (snd (emit_element example_while 0 empty_result example_state))))) = 1"
    by (simp add: example_while_def example_defs emit_defs statement_defs)
  obtain st bb r s' where h: "emit_element example_while 0 empty_result example_state = (st, bb, r, s')"
    by (cases "emit_element example_while 0 empty_result example_state")
  show ?thesis using p e r h by simp
qed

lemma emit_arguments_append:
  "emit_arguments al fc (es1 @ es2) bb s =
     (case emit_arguments al fc es2 bb s of
        (st, bb1, s1) \<Rightarrow> if st \<noteq> Success then (st, bb1, s1) else emit_arguments al fc es1 bb1 s1)"
proof (induction es1 arbitrary: bb s)
  case Nil
  show ?case by (cases "emit_arguments al fc es2 bb s") auto
next
  case (Cons a es1)
  obtain st bb1 s1 where r: "emit_arguments al fc es2 bb s = (st, bb1, s1)"
    by (cases "emit_arguments al fc es2 bb s")
  show ?case
  proof (cases "st = Success")
    case False
    then show ?thesis using r Cons.IH [of bb s] by simp
  next
    case True
    then show ?thesis using r Cons.IH [of bb s] by simp
  qed
qed

lemma emit_instrs_blocks:
  "b < length (blocks s) \<Longrightarrow>
     blocks (emit_instrs b xs s) =
       (blocks s)[b := (blocks s ! b)\<lparr>instructions :=
          instructions (blocks s ! b) @ map (\<lambda>(c, ops). Instruction c ops) xs\<rparr>]"
proof (induction xs arbitrary: s)
  case Nil
  then show ?case by simp
next
  case (Cons x xs)
  obtain c ops where x: "x = (c, ops)" by (cases x)
  have l: "b < length (blocks (emit_instr b c ops s))" using Cons.prems by simp
  show ?case
    unfolding x using Cons.IH [OF l] Cons.prems
    by (simp add: emit_instr_def)
qed

lemma emit_instrs_allocated_size [simp]:
  "allocated_size (emit_instrs b xs s) = allocated_size s"
  by (induction xs arbitrary: s) (auto simp add: emit_instr_def)

lemma proc_call_invoke_effect:
  assumes "proc_call_invoke callee pt al cb s = (Success, s')"
  shows "blocks s' =
           blocks (emit_instr cb (if is_foreign pt then op_call_foreign else op_call)
             (if \<not> is_foreign pt then [Named_ref ref_label callee qword]
              else if ffi_functions s (foreign_address pt) = Some True
              then [Immediate (foreign_address pt) qword, Immediate (next_id s) dword]
              else [Immediate (foreign_address pt) qword]) s)"
    and "allocated_size s' = allocated_size s"
  using assms
  by (auto simp add: proc_call_invoke_def emit_instr_def split: option.splits if_splits)

lemma make_labelled_block_eq:
  "make_labelled_block name s =
     (length (blocks s),
      s\<lparr>blocks := blocks s @ [\<lparr>labels = [name], instructions = [], locals = []\<rparr>]\<rparr>)"
  by (simp add: make_labelled_block_def make_block_def add_label_def empty_block_def)

lemma emit_instr_last:
  "blocks s = xs @ [b] \<Longrightarrow>
     blocks (emit_instr (length xs) c ops s) = xs @ [b\<lparr>instructions := instructions b @ [Instruction c ops]\<rparr>]"
  by (simp add: emit_instr_def)

lemma proc_call_finish_effect:
  assumes "proc_call_finish i callee pt (Some al) ls pb r s = (Success, bb', r', s')"
    and "pb < length (blocks s)"
  shows "bb' = Suc (length (blocks s))"
    and "length (blocks s') = Suc (Suc (length (blocks s)))"
    and "blocks s' ! pb = (blocks s ! pb)\<lparr>instructions := instructions (blocks s ! pb) @
           (if \<not> is_foreign pt \<and> return_type pt \<noteq> None
            then [Instruction op_sub [SP, SP, Immediate 8 byte]] else [])\<rparr>"
    and "\<forall>j<length (blocks s). j \<noteq> pb \<longrightarrow> blocks s' ! j = blocks s ! j"
    and "labels (blocks s' ! length (blocks s)) = [label_name i @ ''_invoke'']"
    and "\<not> is_foreign pt \<longrightarrow> instructions (blocks s' ! length (blocks s)) =
           [Instruction op_call [Named_ref ref_label callee qword]]"
    and "labels (blocks s' ! Suc (length (blocks s))) = [label_name i @ ''_epilogue'']"
    and "instructions (blocks s' ! Suc (length (blocks s))) =
           (if allocated_size s (element_id (expr_info al)) > 0
            then [Instruction op_add [SP, SP, Immediate (allocated_size s (element_id (expr_info al))) word]]
            else [])
           @ (if \<not> is_foreign pt
              then map (\<lambda>n. Instruction op_pop [Named_ref ref_local n qword]) (rev (filter (\<lambda>n. n \<noteq> []) ls))
              else [])"
proof -
  define sa where "sa = (if \<not> is_foreign pt \<and> return_type pt \<noteq> None
               then emit_instr pb op_sub [SP, SP, Immediate 8 byte] s else s)"
  define n where "n = length (blocks s)"
  have sa_blocks: "blocks sa = (blocks s)[pb := (blocks s ! pb)\<lparr>instructions := instructions (blocks s ! pb) @
           (if \<not> is_foreign pt \<and> return_type pt \<noteq> None
            then [Instruction op_sub [SP, SP, Immediate 8 byte]] else [])\<rparr>]"
    by (simp add: sa_def emit_instr_def)
  have sa_alloc: "allocated_size sa = allocated_size s"
    by (simp add: sa_def emit_instr_def)
  have sa_len: "length (blocks sa) = n" by (simp add: sa_blocks n_def)
  define sb where "sb = snd (make_labelled_block (label_name i @ ''_invoke'') sa)"
  have m: "make_labelled_block (label_name i @ ''_invoke'') sa = (n, sb)"
    by (simp add: sb_def make_labelled_block_eq sa_len)
  have sb_blocks: "blocks sb = blocks sa @ [\<lparr>labels = [label_name i @ ''_invoke''], instructions = [], locals = []\<rparr>]"
    by (simp add: sb_def make_labelled_block_eq)
  have sb_alloc: "allocated_size sb = allocated_size s"
    by (simp add: sb_def make_labelled_block_eq sa_alloc)
  obtain ist sd where inv: "proc_call_invoke callee pt (Some al) n sb = (ist, sd)"
    by (cases "proc_call_invoke callee pt (Some al) n sb")
  have fin: "proc_call_finish i callee pt (Some al) ls pb r s =
      (if ist \<noteq> Success then (ist, n, r, sd) else proc_call_epilogue i pt (Some al) ls r sd)"
    unfolding proc_call_finish_def sa_def [symmetric] by (simp add: m inv)
  have ist: "ist = Success"
    using assms(1) fin by (auto split: if_splits)
  note ie = proc_call_invoke_effect [OF inv [unfolded ist]]
  define call where "call = Instruction (if is_foreign pt then op_call_foreign else op_call)
             (if \<not> is_foreign pt then [Named_ref ref_label callee qword]
              else if ffi_functions sb (foreign_address pt) = Some True
              then [Immediate (foreign_address pt) qword, Immediate (next_id sb) dword]
              else [Immediate (foreign_address pt) qword])"
  have sd_blocks: "blocks sd = blocks sa @ [\<lparr>labels = [label_name i @ ''_invoke''], instructions = [call], locals = []\<rparr>]"
    using ie(1) emit_instr_last [OF sb_blocks] by (simp add: sa_len call_def)
  have sd_alloc: "allocated_size sd = allocated_size s"
    using ie(2) sb_alloc by simp
  have sd_len: "length (blocks sd) = Suc n" by (simp add: sd_blocks sa_len)
  define a where "a = allocated_size s (element_id (expr_info al))"
  define se where "se = snd (make_labelled_block (label_name i @ ''_epilogue'') sd)"
  have me: "make_labelled_block (label_name i @ ''_epilogue'') sd = (Suc n, se)"
    by (simp add: se_def make_labelled_block_eq sd_len)
  have se_blocks: "blocks se = blocks sd @ [\<lparr>labels = [label_name i @ ''_epilogue''], instructions = [], locals = []\<rparr>]"
    by (simp add: se_def make_labelled_block_eq)
  have se_alloc: "allocated_size se = allocated_size s"
    by (simp add: se_def make_labelled_block_eq sd_alloc)
  define sf where "sf = (if a > 0 then emit_instr (Suc n) op_add [SP, SP, Immediate a word] se else se)"
  have sf_blocks: "blocks sf = blocks sd @ [\<lparr>labels = [label_name i @ ''_epilogue''],
      instructions = (if a > 0 then [Instruction op_add [SP, SP, Immediate a word]] else []), locals = []\<rparr>]"
    using emit_instr_last [OF se_blocks] by (simp add: sf_def se_blocks sd_len)
  have sf_len: "Suc n < length (blocks sf)" by (simp add: sf_blocks sd_len)
  have ep: "proc_call_epilogue i pt (Some al) ls r sd =
      (Success, Suc n, r, (if \<not> is_foreign pt then pop_locals (Suc n) ls [] else (\<lambda>s. s)) sf)"
    unfolding proc_call_epilogue_def by (simp add: me sf_def a_def se_alloc)
  have res: "bb' = Suc n" "s' = (if \<not> is_foreign pt then pop_locals (Suc n) ls [] else (\<lambda>s. s)) sf"
    using assms(1) fin ist ep by simp_all
  define pops where "pops = (if \<not> is_foreign pt
              then map (\<lambda>n. Instruction op_pop [Named_ref ref_local n qword]) (rev (filter (\<lambda>n. n \<noteq> []) ls))
              else [])"
  have s'_blocks: "blocks s' = blocks sd @ [\<lparr>labels = [label_name i @ ''_epilogue''],
      instructions = (if a > 0 then [Instruction op_add [SP, SP, Immediate a word]] else []) @ pops, locals = []\<rparr>]"
  proof (cases "is_foreign pt")
    case True
    then show ?thesis using res(2) sf_blocks by (simp add: pops_def)
  next
    case False
    have "blocks s' = blocks (emit_instrs (Suc n)
        (map (\<lambda>n. (op_pop, [Named_ref ref_local n qword])) (rev (filter (\<lambda>n. n \<noteq> []) ls))) sf)"
      using res(2) False by (simp add: pop_locals_def)
    also have "\<dots> = (blocks sf)[Suc n := (blocks sf ! Suc n)\<lparr>instructions :=
          instructions (blocks sf ! Suc n) @ map (\<lambda>(c, ops). Instruction c ops)
            (map (\<lambda>n. (op_pop, [Named_ref ref_local n qword])) (rev (filter (\<lambda>n. n \<noteq> []) ls)))\<rparr>]"
      by (rule emit_instrs_blocks [OF sf_len])
    finally show ?thesis
      using False by (simp add: sf_blocks sd_len [symmetric] pops_def comp_def nth_append)
  qed
  have pbn: "pb < n" using assms(2) by (simp add: n_def)
  show "bb' = Suc (length (blocks s))" using res(1) by (simp add: n_def)
  show "length (blocks s') = Suc (Suc (length (blocks s)))"
    by (simp add: s'_blocks sd_len n_def [symmetric])
  show "blocks s' ! pb = (blocks s ! pb)\<lparr>instructions := instructions (blocks s ! pb) @
           (if \<not> is_foreign pt \<and> return_type pt \<noteq> None
            then [Instruction op_sub [SP, SP, Immediate 8 byte]] else [])\<rparr>"
    using pbn by (simp add: s'_blocks sd_blocks nth_append sa_len) (simp add: sa_blocks n_def)
  show "\<forall>j<length (blocks s). j \<noteq> pb \<longrightarrow> blocks s' ! j = blocks s ! j"
    by (simp add: s'_blocks sd_blocks nth_append sa_len n_def [symmetric]) (simp add: sa_blocks)
  show "labels (blocks s' ! length (blocks s)) = [label_name i @ ''_invoke'']"
    by (simp add: s'_blocks sd_blocks nth_append sa_len n_def [symmetric])
  show "\<not> is_foreign pt \<longrightarrow> instructions (blocks s' ! length (blocks s)) =
           [Instruction op_call [Named_ref ref_label callee qword]]"
    by (simp add: s'_blocks sd_blocks nth_append sa_len n_def [symmetric] call_def)
  show "labels (blocks s' ! Suc (length (blocks s))) = [label_name i @ ''_epilogue'']"
    by (simp add: s'_blocks nth_append sd_len n_def [symmetric])
  show "instructions (blocks s' ! Suc (length (blocks s))) =
           (if allocated_size s (element_id (expr_info al)) > 0
            then [Instruction op_add [SP, SP, Immediate (allocated_size s (element_id (expr_info al))) word]]
            else [])
           @ (if \<not> is_foreign pt
              then map (\<lambda>n. Instruction op_pop [Named_ref ref_local n qword]) (rev (filter (\<lambda>n. n \<noteq> []) ls))
              else [])"
    by (simp add: s'_blocks nth_append sd_len n_def [symmetric] a_def pops_def)
qed

lemma proc_call_begin_effect:
  assumes "proc_call_begin i pt bb s = (ls, pb, s1)"
  shows "ls = sorted_locals bb s" and "pb = length (blocks s)"
    and "length (blocks s1) = Suc (length (blocks s))"
    and "labels (blocks s1 ! length (blocks s)) = [label_name i @ ''_prologue'']"
proof -
  define sa where "sa = s\<lparr>blocks := blocks s @
      [\<lparr>labels = [label_name i @ ''_prologue''], instructions = [], locals = []\<rparr>]\<rparr>"
  have l: "length (blocks s) < length (blocks sa)" by (simp add: sa_def)
  have r: "ls = sorted_locals bb s" "pb = length (blocks s)"
    "s1 = (if \<not> is_foreign pt then push_locals (length (blocks s)) (sorted_locals bb s) [] sa else sa)"
    using assms by (auto simp add: proc_call_begin_def make_labelled_block_eq sa_def)
  show "ls = sorted_locals bb s" by (rule r(1))
  show "pb = length (blocks s)" by (rule r(2))
  show "length (blocks s1) = Suc (length (blocks s))"
    using r(3) emit_instrs_blocks [OF l] by (simp add: push_locals_def) (simp add: sa_def)
  show "labels (blocks s1 ! length (blocks s)) = [label_name i @ ''_prologue'']"
    using r(3) emit_instrs_blocks [OF l] by (simp add: push_locals_def) (simp add: sa_def)
qed

lemma grows_labels:
  assumes "grows bb s s1" and "bb < length (blocks s)" and "labels (blocks s ! bb) \<noteq> []"
  shows "hd (labels (blocks s1 ! bb)) = hd (labels (blocks s ! bb))"
proof -
  have "block_le (blocks s ! bb) (blocks s1 ! bb)"
    using assms(1,2) by (auto simp add: grows_def)
  then have "prefix (labels (blocks s ! bb)) (labels (blocks s1 ! bb))"
    by (simp add: block_le_def)
  then show ?thesis using assms(3) by (auto simp add: prefix_def)
qed

lemma advances_bound:
  "advances bb s bb1 s1 \<Longrightarrow> bb < length (blocks s) \<Longrightarrow> bb1 < length (blocks s1)"
  by (auto simp add: advances_def grows_def)

lemma push_argument_eq:
  assumes "type_result ar = Some ty" and "operands_back (result_operands ar) = Some x"
  shows "push_argument al fc b ar t =
     (Success, b,
      if fc then emit_instr b op_push [x] t
      else (if element_type ty \<in> {array_type, tuple_type, composite_type}
            then emit_instr b op_copy [SP, x, Immediate (align (size_in_bytes ty) 8) word]
                   (emit_instr b op_sub [SP, SP, Immediate (align (size_in_bytes ty) 8) word] t)
            else emit_instr b op_push [x] t)
           \<lparr>allocated_size := (allocated_size t)(al := allocated_size t al + align (size_in_bytes ty) 8)\<rparr>)"
  using assms by (simp add: push_argument_def Let_def emit_instr_def)

text \<open>
  Claim C3, as the code has it. A procedure call with an argument list whose emission
  succeeds makes a block labelled \<^verbatim>\<open><call>_prologue\<close>, emits the arguments from it, and then
  makes the blocks \<^verbatim>\<open><call>_invoke\<close> and \<^verbatim>\<open><call>_epilogue\<close>, the last two blocks of the
  emitter and the epilogue the current one. When the call is not foreign and the callee
  returns a value, \<^verbatim>\<open>sub sp, sp, 8\<close> is appended to the block in which the emission of the
  arguments ended, before the invoke block is made; otherwise nothing is appended to it.
  The invoke block of a call that is not foreign holds the call of the callee's label. The
  epilogue adds the argument list's allocated size to the stack pointer when that size is
  greater than zero, and then, in a call that is not foreign, pops the locals.
  The elements of an argument list are handled from the last to the first. An argument
  that is neither an identifier element nor a nested list, emitted with a type and an
  operand: in a list that is not marked foreign, a value of an array, tuple or composite
  type is copied (the stack pointer is lowered by the size rounded up to 8, and that many
  bytes are copied to it) and any other value is pushed, and the size rounded up to 8 is
  added to the allocated size of the list; in a list marked foreign the operand is pushed
  whatever its type, and the allocated size stays as it is.
\<close>

theorem procedure_call_lowering:
  "(emit_expr (Proc_call i callee pt (Some (Argument_list ai fc ok es))) bb r s = (Success, bb', r', s') \<longrightarrow>
      (\<exists>bb1 s2.
         emit_arguments (element_id ai) fc es (length (blocks s)) (snd (snd (proc_call_begin i pt bb s)))
           = (Success, bb1, s2)
       \<and> bb1 < length (blocks s2)
       \<and> hd (labels (blocks s' ! length (blocks s))) = label_name i @ ''_prologue''
       \<and> instructions (blocks s' ! bb1) = instructions (blocks s2 ! bb1) @
            (if \<not> is_foreign pt \<and> return_type pt \<noteq> None
             then [Instruction op_sub [SP, SP, Immediate 8 byte]] else [])
       \<and> length (blocks s') = Suc (Suc (length (blocks s2)))
       \<and> bb' = Suc (length (blocks s2))
       \<and> labels (blocks s' ! length (blocks s2)) = [label_name i @ ''_invoke'']
       \<and> (\<not> is_foreign pt \<longrightarrow> instructions (blocks s' ! length (blocks s2)) =
             [Instruction op_call [Named_ref ref_label callee qword]])
       \<and> labels (blocks s' ! bb') = [label_name i @ ''_epilogue'']
       \<and> instructions (blocks s' ! bb') =
            (if allocated_size s2 (element_id ai) > 0
             then [Instruction op_add [SP, SP, Immediate (allocated_size s2 (element_id ai)) word]]
             else [])
            @ (if \<not> is_foreign pt
               then map (\<lambda>n. Instruction op_pop [Named_ref ref_local n qword])
                      (rev (filter (\<lambda>n. n \<noteq> []) (sorted_locals bb s)))
               else [])))
   \<and> emit_arguments al g (es1 @ es2) b t =
        (case emit_arguments al g es2 b t of
           (st, b1, t1) \<Rightarrow> if st \<noteq> Success then (st, b1, t1) else emit_arguments al g es1 b1 t1)
   \<and> ((\<forall>j. arg \<noteq> Identifier j) \<and> (\<forall>j f k as. arg \<noteq> Argument_list j f k as)
        \<and> emit_expr arg b empty_result t = (Success, b2, ar, t2)
        \<and> type_result ar = Some ty \<and> operands_back (result_operands ar) = Some x \<longrightarrow>
        emit_arguments al g [arg] b t =
          (Success, b2,
           if g then emit_instr b2 op_push [x] t2
           else (if element_type ty \<in> {array_type, tuple_type, composite_type}
                 then emit_instr b2 op_copy [SP, x, Immediate (align (size_in_bytes ty) 8) word]
                        (emit_instr b2 op_sub [SP, SP, Immediate (align (size_in_bytes ty) 8) word] t2)
                 else emit_instr b2 op_push [x] t2)
                \<lparr>allocated_size :=
                   (allocated_size t2)(al := allocated_size t2 al + align (size_in_bytes ty) 8)\<rparr>))"
proof (intro conjI impI)
  assume call: "emit_expr (Proc_call i callee pt (Some (Argument_list ai fc ok es))) bb r s = (Success, bb', r', s')"
  obtain ls pb s1 where b: "proc_call_begin i pt bb s = (ls, pb, s1)"
    by (cases "proc_call_begin i pt bb s")
  note be = proc_call_begin_effect [OF b]
  obtain st bb1 s2 where a: "emit_arguments (element_id ai) fc es pb s1 = (st, bb1, s2)"
    by (cases "emit_arguments (element_id ai) fc es pb s1")
  have e: "emit_expr (Argument_list ai fc ok es) pb empty_result s1 =
      (st, bb1, infer ai empty_result, s2)"
    using a by simp
  have st: "st = Success"
    using call b e by (auto split: if_splits)
  have fin: "proc_call_finish i callee pt (Some (Argument_list ai fc ok es)) ls bb1 (infer i r) s2 =
      (Success, bb', r', s')"
    using call b e st by simp
  note adv = emit_expr_advances [OF e]
  have pbl: "pb < length (blocks s1)" using be by simp
  have bb1: "bb1 < length (blocks s2)" using advances_bound [OF adv pbl] .
  note fe = proc_call_finish_effect [OF fin bb1]
  have g: "grows pb s1 s2" using adv by (simp add: advances_def)
  have pb2: "pb < length (blocks s2)" using g pbl by (simp add: grows_def)
  have "hd (labels (blocks s2 ! pb)) = label_name i @ ''_prologue''"
    using grows_labels [OF g pbl] be by simp
  moreover have "labels (blocks s' ! pb) = labels (blocks s2 ! pb)"
  proof (cases "pb = bb1")
    case True
    then show ?thesis using fe(3) by simp
  next
    case False
    then show ?thesis using fe(4) pb2 by simp
  qed
  ultimately have pro: "hd (labels (blocks s' ! length (blocks s))) = label_name i @ ''_prologue''"
    using be(2) by simp
  have args: "emit_arguments (element_id ai) fc es (length (blocks s)) (snd (snd (proc_call_begin i pt bb s)))
           = (Success, bb1, s2)"
    using a st b be(2) by simp
  have slot: "instructions (blocks s' ! bb1) = instructions (blocks s2 ! bb1) @
            (if \<not> is_foreign pt \<and> return_type pt \<noteq> None
             then [Instruction op_sub [SP, SP, Immediate 8 byte]] else [])"
    using fe(3) by simp
  have epi: "instructions (blocks s' ! bb') =
            (if allocated_size s2 (element_id ai) > 0
             then [Instruction op_add [SP, SP, Immediate (allocated_size s2 (element_id ai)) word]]
             else [])
            @ (if \<not> is_foreign pt
               then map (\<lambda>n. Instruction op_pop [Named_ref ref_local n qword])
                      (rev (filter (\<lambda>n. n \<noteq> []) (sorted_locals bb s)))
               else [])"
    using fe(8) fe(1) be(1) by simp
  have inv: "\<not> is_foreign pt \<longrightarrow> instructions (blocks s' ! length (blocks s2)) =
             [Instruction op_call [Named_ref ref_label callee qword]]"
    using fe(6) .
  have lab: "labels (blocks s' ! bb') = [label_name i @ ''_epilogue'']"
    using fe(7) fe(1) by simp
  show "\<exists>bb1 s2.
         emit_arguments (element_id ai) fc es (length (blocks s)) (snd (snd (proc_call_begin i pt bb s)))
           = (Success, bb1, s2)
       \<and> bb1 < length (blocks s2)
       \<and> hd (labels (blocks s' ! length (blocks s))) = label_name i @ ''_prologue''
       \<and> instructions (blocks s' ! bb1) = instructions (blocks s2 ! bb1) @
            (if \<not> is_foreign pt \<and> return_type pt \<noteq> None
             then [Instruction op_sub [SP, SP, Immediate 8 byte]] else [])
       \<and> length (blocks s') = Suc (Suc (length (blocks s2)))
       \<and> bb' = Suc (length (blocks s2))
       \<and> labels (blocks s' ! length (blocks s2)) = [label_name i @ ''_invoke'']
       \<and> (\<not> is_foreign pt \<longrightarrow> instructions (blocks s' ! length (blocks s2)) =
             [Instruction op_call [Named_ref ref_label callee qword]])
       \<and> labels (blocks s' ! bb') = [label_name i @ ''_epilogue'']
       \<and> instructions (blocks s' ! bb') =
            (if allocated_size s2 (element_id ai) > 0
             then [Instruction op_add [SP, SP, Immediate (allocated_size s2 (element_id ai)) word]]
             else [])
            @ (if \<not> is_foreign pt
               then map (\<lambda>n. Instruction op_pop [Named_ref ref_local n qword])
                      (rev (filter (\<lambda>n. n \<noteq> []) (sorted_locals bb s)))
               else [])"
    using args bb1 pro slot fe(2) fe(1) fe(5) inv lab epi by blast
next
  show "emit_arguments al g (es1 @ es2) b t =
        (case emit_arguments al g es2 b t of
           (st, b1, t1) \<Rightarrow> if st \<noteq> Success then (st, b1, t1) else emit_arguments al g es1 b1 t1)"
    by (rule emit_arguments_append)
next
  assume h: "(\<forall>j. arg \<noteq> Identifier j) \<and> (\<forall>j f k as. arg \<noteq> Argument_list j f k as)
        \<and> emit_expr arg b empty_result t = (Success, b2, ar, t2)
        \<and> type_result ar = Some ty \<and> operands_back (result_operands ar) = Some x"
  have n1: "\<And>j. arg \<noteq> Identifier j" using h by blast
  have n2: "\<And>j f k as. arg \<noteq> Argument_list j f k as" using h by blast
  have ea: "emit_expr arg b empty_result t = (Success, b2, ar, t2)" using h by blast
  have "emit_arguments al g [arg] b t = push_argument al g b2 ar t2"
  proof (cases arg)
    case (Identifier j)
    then show ?thesis using n1 by blast
  next
    case (Argument_list j f k as)
    then show ?thesis using n2 by blast
  qed (use ea in simp_all)
  then show "emit_arguments al g [arg] b t =
          (Success, b2,
           if g then emit_instr b2 op_push [x] t2
           else (if element_type ty \<in> {array_type, tuple_type, composite_type}
                 then emit_instr b2 op_copy [SP, x, Immediate (align (size_in_bytes ty) 8) word]
                        (emit_instr b2 op_sub [SP, SP, Immediate (align (size_in_bytes ty) 8) word] t2)
                 else emit_instr b2 op_push [x] t2)
                \<lparr>allocated_size :=
                   (allocated_size t2)(al := allocated_size t2 al + align (size_in_bytes ty) 8)\<rparr>)"
    using h push_argument_eq [of ar ty x al g b2 t2] by simp
qed

lemmas call_defs =
  example_call_def example_point_def example_ffi_state_def proc_call_begin_def
  proc_call_finish_def proc_call_invoke_def proc_call_epilogue_def push_argument_def
  push_locals_def pop_locals_def sorted_locals_def align_def Let_def

text \<open>
  Claim C3 says that composite arguments are copied through the stack pointer and that the
  epilogue adds the sizes of the pushed arguments back to the stack pointer. In the
  foreign call \<^verbatim>\<open>f(p, 1)\<close> the composite \<^verbatim>\<open>p\<close> is pushed like the scalar, and the epilogue is
  empty.
\<close>

theorem foreign_call_pushes_composite:
  "element_type (Composite ''point'' 12) = composite_type
   \<and> (\<exists>r s'. emit_expr (example_call True) 0 empty_result example_ffi_state = (Success, 3, r, s')
        \<and> blocks s' =
            [\<lparr>labels = [], instructions = [], locals = []\<rparr>,
             \<lparr>labels = [''call_prologue''],
              instructions = [Instruction op_push [Immediate 1 byte],
                              Instruction op_push [Named_ref ref_local ''p'' qword]],
              locals = []\<rparr>,
             \<lparr>labels = [''call_invoke''],
              instructions = [Instruction op_call_foreign [Immediate 7 qword]], locals = []\<rparr>,
             \<lparr>labels = [''call_epilogue''], instructions = [], locals = []\<rparr>])"
proof -
  have e: "fst (emit_expr (example_call True) 0 empty_result example_ffi_state) = Success
    \<and> fst (snd (emit_expr (example_call True) 0 empty_result example_ffi_state)) = 3
    \<and> blocks (snd (snd (snd (emit_expr (example_call True) 0 empty_result example_ffi_state)))) =
            [\<lparr>labels = [], instructions = [], locals = []\<rparr>,
             \<lparr>labels = [''call_prologue''],
              instructions = [Instruction op_push [Immediate 1 byte],
                              Instruction op_push [Named_ref ref_local ''p'' qword]],
              locals = []\<rparr>,
             \<lparr>labels = [''call_invoke''],
              instructions = [Instruction op_call_foreign [Immediate 7 qword]], locals = []\<rparr>,
             \<lparr>labels = [''call_epilogue''], instructions = [], locals = []\<rparr>]"
    by (simp add: call_defs example_defs emit_defs)
  obtain st bb r s' where h: "emit_expr (example_call True) 0 empty_result example_ffi_state = (st, bb, r, s')"
    by (cases "emit_expr (example_call True) 0 empty_result example_ffi_state")
  show ?thesis using e h by simp
qed

text \<open>The call \<^verbatim>\<open>f(p, 1)\<close> that is not foreign, and its argument \<^verbatim>\<open>p\<close> alone.\<close>

theorem procedure_call_lowering_witness:
  "(\<exists>bb' r' s'. emit_expr (example_call False) 0 empty_result example_state = (Success, bb', r', s')
      \<and> hd (labels (blocks s' ! 1)) = ''call_prologue''
      \<and> labels (blocks s' ! bb') = [''call_epilogue''])
   \<and> emit_arguments 5 False [example_point] 0 example_state =
        (Success, 0,
         (emit_instr 0 op_copy [SP, Named_ref ref_local ''p'' qword, Immediate 16 word]
            (emit_instr 0 op_sub [SP, SP, Immediate 16 word] example_state))
         \<lparr>allocated_size := (allocated_size example_state)(5 := 16)\<rparr>)"
proof -
  have e: "fst (emit_expr (example_call False) 0 empty_result example_state) = Success"
    by (simp add: call_defs example_defs emit_defs)
  obtain bb' r' s' where h: "emit_expr (example_call False) 0 empty_result example_state = (Success, bb', r', s')"
    using e by (cases "emit_expr (example_call False) 0 empty_result example_state") auto
  have h': "emit_expr (Proc_call (example_info 3 ''call'' (Some (Numeric u8))) ''f''
       \<lparr>is_foreign = False, return_type = Some (Numeric u8), foreign_address = 7\<rparr>
       (Some (Argument_list (example_info 5 ''args'' None) False True [example_point, example_literal 1])))
       0 empty_result example_state = (Success, bb', r', s')"
    using h by (simp add: example_call_def)
  have n1: "\<forall>j. example_point \<noteq> Identifier j"
    by (simp add: example_point_def)
  have n2: "\<forall>j f k as. example_point \<noteq> Argument_list j f k as"
    by (simp add: example_point_def)
  have p: "emit_expr example_point 0 empty_result example_state =
     (Success, 0,
      \<lparr>result_operands = [Named_ref ref_local ''p'' qword],
       type_result = Some (Composite ''point'' 12), skip_read = False\<rparr>,
      example_state)"
    by (simp add: example_point_def example_defs)
  have t: "type_result \<lparr>result_operands = [Named_ref ref_local ''p'' qword],
       type_result = Some (Composite ''point'' 12), skip_read = False\<rparr> = Some (Composite ''point'' 12)"
    by simp
  have b: "operands_back (result_operands \<lparr>result_operands = [Named_ref ref_local ''p'' qword],
       type_result = Some (Composite ''point'' 12), skip_read = False\<rparr>) = Some (Named_ref ref_local ''p'' qword)"
    by (simp add: operands_back_def)
  note w = procedure_call_lowering [where i = "example_info 3 ''call'' (Some (Numeric u8))"
      and callee = "''f''"
      and pt = "\<lparr>is_foreign = False, return_type = Some (Numeric u8), foreign_address = 7\<rparr>"
      and ai = "example_info 5 ''args'' None" and fc = False and ok = True
      and es = "[example_point, example_literal 1]" and bb = 0 and r = empty_result
      and s = example_state and bb' = bb' and r' = r' and s' = s'
      and al = 5 and g = False and ?es1.0 = "[]" and ?es2.0 = "[]" and b = 0 and t = example_state
      and arg = example_point and ?b2.0 = 0
      and ar = "\<lparr>result_operands = [Named_ref ref_local ''p'' qword],
       type_result = Some (Composite ''point'' 12), skip_read = False\<rparr>"
      and ?t2.0 = example_state and ty = "Composite ''point'' 12"
      and x = "Named_ref ref_local ''p'' qword"]
  have c1: "hd (labels (blocks s' ! 1)) = ''call_prologue'' \<and> labels (blocks s' ! bb') = [''call_epilogue'']"
    using w [THEN conjunct1] h' by (auto simp add: example_defs)
  have c2: "emit_arguments 5 False [example_point] 0 example_state =
        (Success, 0,
         (emit_instr 0 op_copy [SP, Named_ref ref_local ''p'' qword, Immediate 16 word]
            (emit_instr 0 op_sub [SP, SP, Immediate 16 word] example_state))
         \<lparr>allocated_size := (allocated_size example_state)(5 := 16)\<rparr>)"
    using w [THEN conjunct2, THEN conjunct2] n1 n2 p t b
    by (simp add: align_def example_state_def)
  show ?thesis using h c1 c2 by blast
qed

lemma emit_element_advances:
  "emit_element e bb r s = (st, bb', r', s') \<Longrightarrow> advances bb s bb' s'"
  using emit_element_advances_aux(1) by blast

lemma grows_other:
  "grows bb s s1 \<Longrightarrow> j < length (blocks s) \<Longrightarrow> j \<noteq> bb \<Longrightarrow> blocks s1 ! j = blocks s ! j"
  by (auto simp add: grows_def)

lemma grows_below:
  "grows bb s s1 \<Longrightarrow> j < bb \<Longrightarrow> j < length (blocks s) \<Longrightarrow> blocks s1 ! j = blocks s ! j"
  by (auto simp add: grows_def)

lemma emit_instr_nth:
  "b < length (blocks s) \<Longrightarrow>
     blocks (emit_instr b c ops s) ! b =
       (blocks s ! b)\<lparr>instructions := instructions (blocks s ! b) @ [Instruction c ops]\<rparr>"
  by (simp add: emit_instr_def)

lemma emit_instr_nth_other:
  "j \<noteq> b \<Longrightarrow> blocks (emit_instr b c ops s) ! j = blocks s ! j"
  by (simp add: emit_instr_def)

lemma emit_instr_labels [simp]:
  "labels (blocks (emit_instr b c ops s) ! j) = labels (blocks s ! j)"
  by (cases "j = b"; cases "b < length (blocks s)") (simp_all add: emit_instr_def list_update_beyond)

lemma make_labelled_block_nth:
  assumes "make_labelled_block name s = (b, s1)"
  shows "b = length (blocks s)" and "length (blocks s1) = Suc (length (blocks s))"
    and "blocks s1 ! length (blocks s) = \<lparr>labels = [name], instructions = [], locals = []\<rparr>"
    and "j < length (blocks s) \<Longrightarrow> blocks s1 ! j = blocks s ! j"
  using assms by (auto simp add: make_labelled_block_eq nth_append)

lemma if_jump_nth:
  assumes "tb < length (blocks s)"
  shows "instructions (blocks (if_jump i tb s) ! tb) =
           instructions (blocks s ! tb) @
             (if is_current_instruction tb op_jmp s \<or> is_current_instruction tb op_rts s then []
              else [Instruction op_jmp [Named_ref ref_label (label_name i @ ''_exit'') qword]])"
    and "labels (blocks (if_jump i tb s) ! j) = labels (blocks s ! j)"
    and "j \<noteq> tb \<Longrightarrow> blocks (if_jump i tb s) ! j = blocks s ! j"
    and "length (blocks (if_jump i tb s)) = length (blocks s)"
  using assms by (auto simp add: if_jump_def emit_instr_nth emit_instr_nth_other)

text \<open>
  Claim C2, as the code has it. An if element whose emission succeeds makes four blocks of
  its own, in this order and each with its label as first label: \<^verbatim>\<open><id>_entry\<close>, from which
  the predicate is emitted; \<^verbatim>\<open><id>_true\<close>, from which the true branch is emitted;
  \<^verbatim>\<open><id>_false\<close>; and \<^verbatim>\<open><id>_exit\<close>, the last block of the emitter, empty and current at
  the end. The branch-if-zero on the predicate's value to \<^verbatim>\<open><id>_false\<close> is appended to the
  block in which the emission of the predicate ended, and the jump to \<^verbatim>\<open><id>_exit\<close> to the
  block in which the emission of the true branch ended, unless the last instruction of
  that block is a \<^verbatim>\<open>jmp\<close> or an \<^verbatim>\<open>rts\<close>; then nothing is appended to it.
\<close>

theorem if_lowering:
  assumes "emit_element (If_e i p t f) bb r s = (Success, bb', r', s')"
  shows "\<exists>pb pr s2 x tb tr s4.
      emit_expr p (length (blocks s)) empty_result
          (snd (make_labelled_block (label_name i @ ''_entry'') s)) = (Success, pb, pr, s2)
    \<and> operands_back (result_operands pr) = Some x
    \<and> pb < length (blocks s2)
    \<and> emit_element t (length (blocks s2)) empty_result
          (snd (make_labelled_block (label_name i @ ''_true'')
                  (emit_instr pb op_bz [x, Named_ref ref_label (label_name i @ ''_false'') qword] s2)))
        = (Success, tb, tr, s4)
    \<and> tb < length (blocks s4)
    \<and> hd (labels (blocks s' ! length (blocks s))) = label_name i @ ''_entry''
    \<and> instructions (blocks s' ! pb) =
          instructions (blocks s2 ! pb) @
            [Instruction op_bz [x, Named_ref ref_label (label_name i @ ''_false'') qword]]
    \<and> hd (labels (blocks s' ! length (blocks s2))) = label_name i @ ''_true''
    \<and> instructions (blocks s' ! tb) =
          instructions (blocks s4 ! tb) @
            (if is_current_instruction tb op_jmp s4 \<or> is_current_instruction tb op_rts s4 then []
             else [Instruction op_jmp [Named_ref ref_label (label_name i @ ''_exit'') qword]])
    \<and> hd (labels (blocks s' ! length (blocks s4))) = label_name i @ ''_false''
    \<and> Suc bb' = length (blocks s')
    \<and> labels (blocks s' ! bb') = [label_name i @ ''_exit'']
    \<and> instructions (blocks s' ! bb') = []"
proof -
  define n where "n = length (blocks s)"
  obtain e0 s1 where m1: "make_labelled_block (label_name i @ ''_entry'') s = (e0, s1)"
    by (cases "make_labelled_block (label_name i @ ''_entry'') s")
  note k1 = make_labelled_block_nth [OF m1]
  obtain st1 pb pr s2 where e1: "emit_expr p e0 empty_result s1 = (st1, pb, pr, s2)"
    by (cases "emit_expr p e0 empty_result s1")
  obtain stp tb0 s3 where ip: "if_predicate i p s = (stp, tb0, s3)"
    by (cases "if_predicate i p s")
  have stp: "stp = Success"
    using assms ip by (auto split: if_splits)
  have st1: "st1 = Success"
    using ip stp m1 e1 by (auto simp add: if_predicate_def split: if_splits)
  obtain x where x: "operands_back (result_operands pr) = Some x"
    using ip stp m1 e1 st1 by (cases "operands_back (result_operands pr)") (auto simp add: if_predicate_def)
  define s2b where "s2b = emit_instr pb op_bz [x, Named_ref ref_label (label_name i @ ''_false'') qword] s2"
  obtain t0 s3' where m2: "make_labelled_block (label_name i @ ''_true'') s2b = (t0, s3')"
    by (cases "make_labelled_block (label_name i @ ''_true'') s2b")
  have ip': "tb0 = t0" "s3 = s3'"
    using ip m1 e1 st1 x m2 by (simp_all add: if_predicate_def s2b_def)
  note k2 = make_labelled_block_nth [OF m2]
  obtain st2 tb tr s4 where e2: "emit_element t tb0 empty_result s3 = (st2, tb, tr, s4)"
    by (cases "emit_element t tb0 empty_result s3")
  have st2: "st2 = Success"
    using assms ip stp e2 by (auto split: if_splits)
  define s4b where "s4b = if_jump i tb s4"
  obtain f0 s5 where m3: "make_labelled_block (label_name i @ ''_false'') s4b = (f0, s5)"
    by (cases "make_labelled_block (label_name i @ ''_false'') s4b")
  have ifb: "if_false_block i tb s4 = (f0, s5)"
    by (simp add: if_false_block_def s4b_def [symmetric] m3)
  note k3 = make_labelled_block_nth [OF m3]
  have "\<exists>s6. grows f0 s5 s6
      \<and> if_exit i (add_operand (Named_ref ref_local [] qword) (infer i r)) s6 = (Success, bb', r', s')"
  proof (cases f)
    case None
    have "if_exit i (add_operand (Named_ref ref_local [] qword) (infer i r)) (emit_instr f0 op_nop [] s5)
        = (Success, bb', r', s')"
      using assms ip stp e2 st2 None ifb by simp
    then show ?thesis using grows_emit_instr_self by blast
  next
    case (Some fe)
    obtain st3 fb fr s6 where e3: "emit_element fe f0 empty_result s5 = (st3, fb, fr, s6)"
      by (cases "emit_element fe f0 empty_result s5")
    have st3: "st3 = Success"
      using assms ip stp e2 st2 Some ifb e3 by (auto split: if_splits)
    have "if_exit i (add_operand (Named_ref ref_local [] qword) (infer i r)) s6 = (Success, bb', r', s')"
      using assms ip stp e2 st2 Some ifb e3 st3 by simp
    moreover have "grows f0 s5 s6"
      using emit_element_advances [OF e3] by (simp add: advances_def)
    ultimately show ?thesis by blast
  qed
  then obtain s6 where g6: "grows f0 s5 s6"
    and ex: "if_exit i (add_operand (Named_ref ref_local [] qword) (infer i r)) s6 = (Success, bb', r', s')"
    by blast
  obtain x0 s7 where m4: "make_labelled_block (label_name i @ ''_exit'') s6 = (x0, s7)"
    by (cases "make_labelled_block (label_name i @ ''_exit'') s6")
  have ex': "bb' = x0" "s' = s7"
    using ex m4 by (simp_all add: if_exit_def)
  note k4 = make_labelled_block_nth [OF m4]
  \<comment> \<open>the predicate\<close>
  have nl: "e0 < length (blocks s1)" using k1 by simp
  note a1 = emit_expr_advances [OF e1]
  have pbl: "pb < length (blocks s2)" using advances_bound [OF a1 nl] .
  have g1: "grows e0 s1 s2" using a1 by (simp add: advances_def)
  have e0l: "e0 < length (blocks s2)" using g1 nl by (simp add: grows_def)
  have lab1: "hd (labels (blocks s2 ! e0)) = label_name i @ ''_entry''"
    using grows_labels [OF g1 nl] k1 by simp
  have l2b: "length (blocks s2b) = length (blocks s2)" by (simp add: s2b_def)
  have t0: "t0 = length (blocks s2)" using k2(1) l2b by simp
  \<comment> \<open>the true branch\<close>
  have t0l: "t0 < length (blocks s3')" using k2 by simp
  have a2: "advances t0 s3' tb s4" using emit_element_advances [OF e2] ip' by simp
  have tbl: "tb < length (blocks s4)" using advances_bound [OF a2 t0l] .
  have g2: "grows t0 s3' s4" using a2 by (simp add: advances_def)
  have tb_ge: "t0 \<le> tb" using a2 k2 by (auto simp add: advances_def)
  have t0l4: "t0 < length (blocks s4)" using tb_ge tbl by simp
  have below2: "\<And>j. j < t0 \<Longrightarrow> blocks s4 ! j = blocks s2b ! j"
    using grows_below [OF g2] k2(4) k2(1) t0l by simp
  have lab2: "hd (labels (blocks s4 ! t0)) = label_name i @ ''_true''"
    using grows_labels [OF g2 t0l] k2 by simp
  \<comment> \<open>the jump and the false block\<close>
  note j = if_jump_nth [OF tbl, where i = i]
  have f0: "f0 = length (blocks s4)" using k3(1) j(4) by (simp add: s4b_def)
  have f0l: "f0 < length (blocks s5)" using k3 by simp
  have below5: "\<And>j. j < f0 \<Longrightarrow> blocks s5 ! j = blocks s4b ! j"
    using k3(4) k3(1) by simp
  have below6: "\<And>j. j < f0 \<Longrightarrow> blocks s6 ! j = blocks s5 ! j"
    using grows_below [OF g6] f0l by simp
  have l6: "length (blocks s5) \<le> length (blocks s6)" using g6 by (simp add: grows_def)
  have lab3: "hd (labels (blocks s6 ! f0)) = label_name i @ ''_false''"
    using grows_labels [OF g6 f0l] k3 by simp
  have below7: "\<And>j. j < length (blocks s6) \<Longrightarrow> blocks s' ! j = blocks s6 ! j"
    using k4(4) ex' by simp
  have below: "\<And>j. j < f0 \<Longrightarrow> blocks s' ! j = blocks s4b ! j"
    using below7 below6 below5 f0l l6 by simp
  \<comment> \<open>the blocks at the end\<close>
  have c_tb: "instructions (blocks s' ! tb) =
          instructions (blocks s4 ! tb) @
            (if is_current_instruction tb op_jmp s4 \<or> is_current_instruction tb op_rts s4 then []
             else [Instruction op_jmp [Named_ref ref_label (label_name i @ ''_exit'') qword]])"
    using below [of tb] tbl f0 j(1) by (simp add: s4b_def)
  have c_true: "hd (labels (blocks s' ! t0)) = label_name i @ ''_true''"
    using below [of t0] t0l4 f0 j(2) [of t0] lab2 by (simp add: s4b_def)
  have pb_t0: "pb < t0" using pbl t0 by simp
  have pb_tb: "pb \<noteq> tb" using pb_t0 tb_ge by simp
  have "blocks s' ! pb = blocks s2b ! pb"
    using below [of pb] pb_t0 t0l4 f0 j(3) [OF pb_tb] below2 [OF pb_t0] by (simp add: s4b_def)
  then have c_pb: "instructions (blocks s' ! pb) =
          instructions (blocks s2 ! pb) @
            [Instruction op_bz [x, Named_ref ref_label (label_name i @ ''_false'') qword]]"
    using emit_instr_nth [OF pbl] by (simp add: s2b_def)
  have e0_t0: "e0 < t0" using e0l t0 by simp
  have e0_tb: "e0 \<noteq> tb" using e0_t0 tb_ge by simp
  have "blocks s' ! e0 = blocks s2b ! e0"
    using below [of e0] e0_t0 t0l4 f0 j(3) [OF e0_tb] below2 [OF e0_t0] by (simp add: s4b_def)
  then have c_entry: "hd (labels (blocks s' ! e0)) = label_name i @ ''_entry''"
    using lab1 by (simp add: s2b_def)
  have c_false: "hd (labels (blocks s' ! f0)) = label_name i @ ''_false''"
    using below7 [of f0] f0l l6 lab3 by simp
  have c_exit: "Suc bb' = length (blocks s')" "labels (blocks s' ! bb') = [label_name i @ ''_exit'']"
    "instructions (blocks s' ! bb') = []"
    using k4 ex' by simp_all
  have c1: "emit_expr p (length (blocks s)) empty_result
          (snd (make_labelled_block (label_name i @ ''_entry'') s)) = (Success, pb, pr, s2)"
    using e1 st1 m1 k1(1) by simp
  have c2: "emit_element t (length (blocks s2)) empty_result
          (snd (make_labelled_block (label_name i @ ''_true'')
                  (emit_instr pb op_bz [x, Named_ref ref_label (label_name i @ ''_false'') qword] s2)))
        = (Success, tb, tr, s4)"
    using e2 st2 ip' m2 t0 by (simp add: s2b_def)
  show ?thesis
    using c1 x pbl c2 tbl c_entry [unfolded k1(1)] c_pb c_true [unfolded t0] c_tb
      c_false [unfolded f0] c_exit
    by blast
qed

text \<open>
  Claim C2 says that the lowering of an if element produces four blocks and that the
  predicate block, labelled \<^verbatim>\<open><id>_entry\<close>, ends with the branch-if-zero. For \<^verbatim>\<open>if a > 0 {}\<close> five
  blocks are added to the one that was there; the block labelled \<^verbatim>\<open>if_entry\<close> ends with the
  \<^verbatim>\<open>seta\<close> of the comparison, and the branch is in the block \<^verbatim>\<open>gt_exit\<close> that the comparison
  made.
\<close>

theorem if_branch_in_another_block:
  "length (blocks example_state) = 1
   \<and> (\<exists>bb r s'. emit_element example_if 0 empty_result example_state = (Success, bb, r, s')
        \<and> length (blocks s') = 6
        \<and> blocks s' ! 1 =
             \<lparr>labels = [''if_entry''],
              instructions = [Instruction op_cmp [Named_ref ref_local ''a'' byte, Immediate 0 byte],
                              Instruction op_seta [Named_ref ref_local [] byte]],
              locals = []\<rparr>
        \<and> blocks s' ! 2 =
             \<lparr>labels = [''gt_exit''],
              instructions = [Instruction op_nop [],
                              Instruction op_bz [Named_ref ref_local [] byte,
                                                 Named_ref ref_label ''if_false'' qword]],
              locals = []\<rparr>)"
proof -
  have e: "fst (emit_element example_if 0 empty_result example_state) = Success
    \<and> length (blocks (snd (snd (snd (emit_element example_if 0 empty_result example_state))))) = 6
    \<and> blocks (snd (snd (snd (emit_element example_if 0 empty_result example_state)))) ! 1 =
             \<lparr>labels = [''if_entry''],
              instructions = [Instruction op_cmp [Named_ref ref_local ''a'' byte, Immediate 0 byte],
                              Instruction op_seta [Named_ref ref_local [] byte]],
              locals = []\<rparr>
    \<and> blocks (snd (snd (snd (emit_element example_if 0 empty_result example_state)))) ! 2 =
             \<lparr>labels = [''gt_exit''],
              instructions = [Instruction op_nop [],
                              Instruction op_bz [Named_ref ref_local [] byte,
                                                 Named_ref ref_label ''if_false'' qword]],
              locals = []\<rparr>"
    by (simp add: example_if_def example_defs emit_defs statement_defs)
  obtain st bb r s' where h: "emit_element example_if 0 empty_result example_state = (st, bb, r, s')"
    by (cases "emit_element example_if 0 empty_result example_state")
  have l: "length (blocks example_state) = 1" by (simp add: example_state_def)
  show ?thesis using e h l by simp
qed

text \<open>The same statement: its four blocks.\<close>

theorem if_lowering_witness:
  "\<exists>bb' r' s'. emit_element example_if 0 empty_result example_state = (Success, bb', r', s')
     \<and> hd (labels (blocks s' ! 1)) = ''if_entry''
     \<and> Suc bb' = length (blocks s')
     \<and> labels (blocks s' ! bb') = [''if_exit'']
     \<and> instructions (blocks s' ! bb') = []"
proof -
  have e: "fst (emit_element example_if 0 empty_result example_state) = Success"
    by (simp add: example_if_def example_defs emit_defs statement_defs)
  obtain bb' r' s' where h: "emit_element example_if 0 empty_result example_state = (Success, bb', r', s')"
    using e by (cases "emit_element example_if 0 empty_result example_state") auto
  have h': "emit_element (If_e (example_info 3 ''if'' None)
       (Binary_operator (example_info 4 ''gt'' (Some bool_type_object)) True greater_than
          (example_identifier ''a'' (Numeric u8)) (example_literal 0))
       (Block (example_info 1 ''block'' None) False False [] [])
       None) 0 empty_result example_state = (Success, bb', r', s')"
    using h by (simp add: example_if_def)
  have l: "length (blocks example_state) = 1" by (simp add: example_state_def)
  have n: "label_name (example_info 3 ''if'' None) = ''if''" by (simp add: example_info_def)
  from if_lowering [OF h'] have
    "hd (labels (blocks s' ! 1)) = ''if_entry''
     \<and> Suc bb' = length (blocks s')
     \<and> labels (blocks s' ! bb') = [''if_exit'']
     \<and> instructions (blocks s' ! bb') = []"
    unfolding l n by auto
  then show ?thesis using h by blast
qed

end
